theory Spec2Isabelle
  imports Main "HOL-Library.Word"
begin

unbundle bit_operations_syntax

section \<open>Machine types\<close>

text \<open>
  The program is C++ for Linux on an LP64 target: \<open>size_t\<close> is an unsigned 64-bit
  integer whose arithmetic wraps around, \<open>uint8_t\<close> is a byte. A buffer
  (\<open>const uint8_t *\<close> together with a \<open>size_t\<close> length) is a list of bytes and the
  length that the caller passes; the callers' contract is that the buffer holds at least
  \<open>length\<close> bytes, which the theorems state as \<open>unat length \<le> length buffer\<close>.
\<close>

type_synonym uint8_t = "8 word"
type_synonym size_t = "64 word"
type_synonym int64_t = "64 word"

section \<open>two\_color.h: the color byte format\<close>

definition kPeriod :: size_t where
  "kPeriod = 7"

definition kLowPrime :: uint8_t where
  "kLowPrime = 29"

definition kHighPrime :: uint8_t where
  "kHighPrime = 31"

definition kLowTag :: uint8_t where
  "kLowTag = 0x80"

definition kHighTag :: uint8_t where
  "kHighTag = 0x40"

definition Tag :: "uint8_t \<Rightarrow> uint8_t" where
  "Tag color = color AND 0xe0"

definition Residue :: "uint8_t \<Rightarrow> uint8_t" where
  "Residue color = color AND 0x1f"

text \<open>
  \<open>kLowTag | (identity % kLowPrime)\<close> is computed in \<open>size_t\<close> (both bytes are
  converted) and the result is truncated to a byte by the return.
\<close>

definition LowColor :: "size_t \<Rightarrow> uint8_t" where
  "LowColor identity = ucast ((ucast kLowTag :: size_t) OR (identity mod ucast kLowPrime))"

definition HighColor :: "size_t \<Rightarrow> uint8_t" where
  "HighColor identity = ucast ((ucast kHighTag :: size_t) OR (identity mod ucast kHighPrime))"

definition IsValidLowColor :: "uint8_t \<Rightarrow> bool" where
  "IsValidLowColor c =
     (if Tag c \<noteq> kLowTag then False
      else let residue = Residue c in
        if residue \<ge> kLowPrime then False else True)"

definition IsValidHighColor :: "uint8_t \<Rightarrow> bool" where
  "IsValidHighColor c =
     (if Tag c \<noteq> kHighTag then False
      else let residue = Residue c in
        if residue \<ge> kHighPrime then False else True)"

text \<open>The sum \<open>buffer_id + position\<close> is a \<open>size_t\<close> sum: it wraps at \<open>2 ^ 64\<close>.\<close>

definition ColorSelector :: "size_t \<Rightarrow> size_t \<Rightarrow> size_t" where
  "ColorSelector buffer_id position =
     (let v = buffer_id + position in
      if v mod kPeriod < kPeriod div 2 then 0 else 1)"

definition Color :: "size_t \<Rightarrow> size_t \<Rightarrow> size_t \<Rightarrow> uint8_t" where
  "Color identity buffer_id position =
     (if ColorSelector buffer_id position \<noteq> 0 then HighColor identity
      else LowColor identity)"

section \<open>two\_color.cc: painting, matching and identifying\<close>

text \<open>
  Every loop counter is a \<open>size_t\<close> that stays below its bound, so \<open>k++\<close> never wraps
  and the distance to the bound decreases. The loop of \<open>Paint\<close> is
  \<open>for (size_t k = 0; k < length; k++) buffer[k] = Color(identity, buffer_id, k);\<close>
\<close>

function Paint_loop :: "size_t \<Rightarrow> size_t \<Rightarrow> uint8_t list \<Rightarrow> size_t \<Rightarrow> size_t \<Rightarrow> uint8_t list" where
  "Paint_loop identity buffer_id buffer len k =
     (if k < len
      then Paint_loop identity buffer_id (buffer[unat k := Color identity buffer_id k]) len (k + 1)
      else buffer)"
  by pat_completeness auto
termination
proof (relation "measure (\<lambda>(identity, buffer_id, buffer, len, k). unat len - unat k)", goal_cases)
  case 1
  show ?case by simp
next
  case (2 identity buffer_id buffer len k)
  then have "unat k < unat len" by (simp add: word_less_nat_alt)
  moreover have "unat len < 2 ^ 64" using unsigned_less [of len] by simp
  ultimately have "unat (k + 1) = unat k + 1" by (simp add: unat_word_ariths)
  with \<open>unat k < unat len\<close> show ?case by simp
qed

declare Paint_loop.simps [simp del]

definition Paint :: "size_t \<Rightarrow> size_t \<Rightarrow> uint8_t list \<Rightarrow> size_t \<Rightarrow> uint8_t list" where
  "Paint identity buffer_id buffer len = Paint_loop identity buffer_id buffer len 0"

text \<open>
  \<open>for (size_t k = 0; k < length; k++) if (buffer[k] != Color(identity, phase, k)) return k;\<close>
  and \<open>return length\<close> after the loop.
\<close>

function ColorMatch_loop :: "size_t \<Rightarrow> size_t \<Rightarrow> uint8_t list \<Rightarrow> size_t \<Rightarrow> size_t \<Rightarrow> size_t" where
  "ColorMatch_loop identity phase buffer len k =
     (if k < len
      then (if buffer ! unat k \<noteq> Color identity phase k then k
            else ColorMatch_loop identity phase buffer len (k + 1))
      else len)"
  by pat_completeness auto
termination
proof (relation "measure (\<lambda>(identity, phase, buffer, len, k). unat len - unat k)", goal_cases)
  case 1
  show ?case by simp
next
  case (2 identity phase buffer len k)
  then have "unat k < unat len" by (simp add: word_less_nat_alt)
  moreover have "unat len < 2 ^ 64" using unsigned_less [of len] by simp
  ultimately have "unat (k + 1) = unat k + 1" by (simp add: unat_word_ariths)
  with \<open>unat k < unat len\<close> show ?case by simp
qed

declare ColorMatch_loop.simps [simp del]

definition ColorMatch :: "size_t \<Rightarrow> size_t \<Rightarrow> uint8_t list \<Rightarrow> size_t \<Rightarrow> size_t" where
  "ColorMatch identity phase buffer len = ColorMatch_loop identity phase buffer len 0"

text \<open>
  The search of \<open>Crt\<close> runs \<open>k\<close> from 1 while \<open>k < kLowPrime * kHighPrime\<close>; the
  product of the two bytes is formed after integer promotion, so it is 899 and does not
  wrap at 256. After the loop the function returns 0.
\<close>

function Crt_loop :: "uint8_t \<Rightarrow> uint8_t \<Rightarrow> size_t \<Rightarrow> size_t" where
  "Crt_loop c_low c_high k =
     (if k < ucast kLowPrime * ucast kHighPrime
      then (if LowColor k = c_low \<and> HighColor k = c_high then k
            else Crt_loop c_low c_high (k + 1))
      else 0)"
  by pat_completeness auto
termination
proof (relation "measure (\<lambda>(c_low, c_high, k). unat (ucast kLowPrime * ucast kHighPrime :: size_t) - unat k)", goal_cases)
  case 1
  show ?case by simp
next
  case (2 c_low c_high k)
  then have "unat k < unat (ucast kLowPrime * ucast kHighPrime :: size_t)" by (simp add: word_less_nat_alt)
  moreover have "unat (ucast kLowPrime * ucast kHighPrime :: size_t) < 2 ^ 64" using unsigned_less [of "ucast kLowPrime * ucast kHighPrime :: size_t"] by simp
  ultimately have "unat (k + 1) = unat k + 1" by (simp add: unat_word_ariths)
  with \<open>unat k < unat (ucast kLowPrime * ucast kHighPrime :: size_t)\<close> show ?case by simp
qed

declare Crt_loop.simps [simp del]

definition Crt :: "uint8_t \<Rightarrow> uint8_t \<Rightarrow> size_t" where
  "Crt c_low c_high = Crt_loop c_low c_high 1"

record CandidateColors =
  cand_identity :: size_t
  cand_phase :: size_t

record Identity =
  ident_identity :: size_t
  ident_length :: size_t
  ident_phase :: size_t

text \<open>\<open>while (k < std::min(length, kPeriod) && buffer[k] == c_0) k++;\<close>\<close>

function Candidates_scan :: "uint8_t list \<Rightarrow> size_t \<Rightarrow> uint8_t \<Rightarrow> size_t \<Rightarrow> size_t" where
  "Candidates_scan buffer len c_0 k =
     (if k < min len kPeriod \<and> buffer ! unat k = c_0
      then Candidates_scan buffer len c_0 (k + 1)
      else k)"
  by pat_completeness auto
termination
proof (relation "measure (\<lambda>(buffer, len, c_0, k). unat (min len kPeriod) - unat k)", goal_cases)
  case 1
  show ?case by simp
next
  case (2 buffer len c_0 k)
  then have "unat k < unat (min len kPeriod)" by (simp add: word_less_nat_alt)
  moreover have "unat (min len kPeriod) < 2 ^ 64" using unsigned_less [of "min len kPeriod"] by simp
  ultimately have "unat (k + 1) = unat k + 1" by (simp add: unat_word_ariths)
  with \<open>unat k < unat (min len kPeriod)\<close> show ?case by simp
qed

declare Candidates_scan.simps [simp del]

definition Candidates :: "uint8_t list \<Rightarrow> size_t \<Rightarrow> CandidateColors option" where
  "Candidates buffer len =
     (if len < 2 then None
      else
        let c_0 = buffer ! 0;
            k = Candidates_scan buffer len c_0 1
        in
        if k \<ge> min len kPeriod then None
        else
          let c_1 = buffer ! unat k;
              valid_low_0 = IsValidLowColor c_0;
              valid_low_1 = IsValidLowColor c_1;
              valid_high_0 = IsValidHighColor c_0;
              valid_high_1 = IsValidHighColor c_1;
              low_0_high_1 = (valid_low_0 \<and> valid_high_1);
              low_1_high_0 = (valid_low_1 \<and> valid_high_0)
          in
          if \<not> (low_0_high_1 \<or> low_1_high_0) then None
          else
            let (c_low, c_high, phase) =
                  (if low_0_high_1
                   then (c_0, c_1, (kPeriod + (kPeriod div 2) - k) mod kPeriod)
                   else (c_1, c_0, kPeriod - k))
            in Some \<lparr>cand_identity = Crt c_low c_high, cand_phase = phase\<rparr>)"

definition Identify :: "uint8_t list \<Rightarrow> size_t \<Rightarrow> Identity option" where
  "Identify buffer len =
     (case Candidates buffer len of
        None \<Rightarrow> None
      | Some c \<Rightarrow>
          let ident = \<lparr>ident_identity = cand_identity c,
                       ident_length = ColorMatch (cand_identity c) (cand_phase c) buffer len,
                       ident_phase = cand_phase c\<rparr>
          in if ident_length ident \<le> kPeriod then None else Some ident)"

section \<open>Text formatting and the log sink\<close>

text \<open>
  \<open>absl::StrFormat\<close> prints an integer argument of \<open>%d\<close> in decimal, with a minus sign
  for a negative signed value; \<open>%9d\<close> right-justifies it in a field of nine characters.
\<close>

fun dec_nat :: "nat \<Rightarrow> string" where
  "dec_nat n =
     (if n < 10 then [''0123456789'' ! n]
      else dec_nat (n div 10) @ [''0123456789'' ! (n mod 10)])"

definition dec_unsigned :: "'a::len word \<Rightarrow> string" where
  "dec_unsigned w = dec_nat (unat w)"

definition dec_signed :: "'a::len word \<Rightarrow> string" where
  "dec_signed w = (if sint w < 0 then ''-'' @ dec_nat (nat (- sint w)) else dec_nat (nat (sint w)))"

definition pad_left :: "nat \<Rightarrow> string \<Rightarrow> string" where
  "pad_left width text = replicate (width - length text) CHR '' '' @ text"

fun StrJoin :: "string list \<Rightarrow> string \<Rightarrow> string" where
  "StrJoin [] sep = []"
| "StrJoin [x] sep = x"
| "StrJoin (x # y # ys) sep = x @ sep @ StrJoin (y # ys) sep"

text \<open>
  The log sink is a list of lines, each with the severity it was written at.
\<close>

datatype severity = INFO | ERROR | FATAL

type_synonym log_line = "severity \<times> string"

section \<open>two\_color.cc: describing a color\<close>

definition CrackColor :: "size_t \<Rightarrow> uint8_t \<Rightarrow> string" where
  "CrackColor local_identity color =
     (if \<not> (IsValidLowColor color \<or> IsValidHighColor color)
      then dec_unsigned color @ '' Garbage''
      else
        let low_color = IsValidLowColor color;
            modulus = (if low_color then kLowPrime else kHighPrime);
            residue = Residue color;
            root = (residue = 0);
            local = (color = (if low_color then LowColor local_identity
                              else HighColor local_identity));
            provenance = (if root then ''Root'' else if local then ''Local'' else ''Foreign'')
        in dec_unsigned color @ '' '' @ provenance @ '' ['' @ dec_unsigned residue
           @ '' mod '' @ dec_unsigned modulus @ '']'')"

definition Identity_ToString :: "Identity \<Rightarrow> string" where
  "Identity_ToString i =
     ''Identity: '' @ dec_unsigned (ident_identity i) @ '' Length: '' @ dec_unsigned (ident_length i)
     @ '' Phase: '' @ dec_unsigned (ident_phase i)"

section \<open>spraypaint.h, spraypaint.cc: the scan and its summarizer\<close>

text \<open>
  Of a \<open>SprayPaint\<close> object the scan reads the three \<open>int\<close> members \<open>round_\<close>,
  \<open>kid_\<close> and \<open>last_painted_by_\<close>. Where one of them is passed for a \<open>size_t\<close>
  parameter or compared with a \<open>size_t\<close>, C++ converts it with sign extension.
\<close>

type_synonym c_int = "32 word"

record SprayPaint =
  round' :: c_int
  kid :: c_int
  last_painted_by :: c_int

definition SprayPaint_CrackColor :: "SprayPaint \<Rightarrow> uint8_t \<Rightarrow> string" where
  "SprayPaint_CrackColor sp color = CrackColor (scast (kid sp)) color"

definition Ident :: "SprayPaint \<Rightarrow> string \<Rightarrow> size_t \<Rightarrow> string" where
  "Ident sp phase buffer_id =
     ''Round: '' @ dec_signed (round' sp) @ '' Kid: '' @ dec_signed (kid sp)
     @ '' Buffer: '' @ dec_unsigned buffer_id @ '' '' @ phase"

definition ErrorMessage :: "SprayPaint \<Rightarrow> uint8_t \<Rightarrow> size_t \<Rightarrow> string" where
  "ErrorMessage sp color position =
     ''BadColor: '' @ SprayPaint_CrackColor sp color @ '' Position: '' @ dec_unsigned position"

text \<open>
  The members of a \<open>Summarizer\<close>. \<open>range_start_\<close> and \<open>range_end_\<close> have no
  initialiser in the class; they are only read while \<open>active_\<close> holds, after \<open>Report\<close>
  has assigned them, and start as 0 here. \<open>logged\<close> is what the object has written to
  the log sink.
\<close>

record Summarizer =
  ident :: string
  spray_paint :: SprayPaint
  buffer :: "uint8_t list"
  active :: bool
  range_count :: size_t
  range_start :: size_t
  range_end :: size_t
  range_fails :: size_t
  total_fails :: int64_t
  histogram :: "uint8_t \<Rightarrow> int64_t"
  logged :: "log_line list"

definition kSpewLimit :: size_t where
  "kSpewLimit = 600"

text \<open>
  Modelled from the spec: the macro \<open>SAFELOG\<close> is declared in \<open>log.h\<close>, which is
  missing. The specification has the core hand line-oriented diagnostic text to a log sink;
  accordingly \<open>SAFELOG(severity) << a << b\<close> appends one line, the concatenation of what is
  streamed into it, when the statement completes.
\<close>

definition SAFELOG :: "severity \<Rightarrow> string \<Rightarrow> Summarizer \<Rightarrow> Summarizer" where
  "SAFELOG sev text s = s\<lparr>logged := logged s @ [(sev, text)]\<rparr>"

definition Clear :: "Summarizer \<Rightarrow> Summarizer" where
  "Clear s = s\<lparr>histogram := (\<lambda>k. 0), range_fails := 0\<rparr>"

definition Summarizer_ctor :: "string \<Rightarrow> SprayPaint \<Rightarrow> uint8_t list \<Rightarrow> Summarizer" where
  "Summarizer_ctor ident0 sp buffer0 =
     Clear \<lparr>ident = ident0, spray_paint = sp, buffer = buffer0, active = False,
            range_count = 0, range_start = 0, range_end = 0, range_fails = 0,
            total_fails = 0, histogram = (\<lambda>k. 0), logged = []\<rparr>"

text \<open>
  \<open>total_fails_ >= kSpewLimit\<close> compares an \<open>int64_t\<close> with a \<open>size_t\<close>: the signed
  operand is converted and the comparison is unsigned.
\<close>

definition IsSquelched :: "Summarizer \<Rightarrow> bool" where
  "IsSquelched s = (total_fails s \<ge> kSpewLimit)"

text \<open>
  \<open>Summary\<close> returns the text of the current range. On its way it writes the line
  \<open>Identifying\<close> at severity \<open>INFO\<close>; that line is accounted for in \<open>LogSummary\<close>
  below, which is the statement \<open>SAFELOG(ERROR) << ident_ << " " << Summary()\<close>.
\<close>

definition Summary :: "Summarizer \<Rightarrow> string" where
  "Summary s =
     (if \<not> active s then []
      else
        let range_length = range_end s - range_start s + 1;
            v0 = [''Range: '' @ dec_unsigned (range_count s)
                  @ '' Range start: '' @ dec_unsigned (range_start s)
                  @ '' Range end: '' @ dec_unsigned (range_end s)
                  @ '' Length: '' @ dec_unsigned range_length
                  @ '' Range fails: '' @ dec_unsigned (range_fails s)
                  @ '' '' @ (if IsSquelched s then ''Squelched'' else [])
                  @ '' Colors:''];
            v1 = v0 @ concat (map (\<lambda>k. if histogram s (of_nat k) \<noteq> 0
                                      then [''  '' @ SprayPaint_CrackColor (spray_paint s) (of_nat k)
                                            @ '': '' @ pad_left 9 (dec_signed (histogram s (of_nat k)))]
                                      else [])
                                 [0 ..< 256]);
            r = Identify (drop (unat (range_start s)) (buffer s)) range_length;
            kThreshold = (6 :: size_t);
            v2 = v1 @ [case r of
                         Some i \<Rightarrow>
                           if ident_identity i \<noteq> scast (kid (spray_paint s))
                              \<and> ident_identity i \<noteq> 0 \<and> ident_length i > kThreshold
                           then ''*** Indiscretion '' @ ident s @ '' from Kid: ''
                                @ dec_unsigned (ident_identity i) @ '' Length: ''
                                @ dec_unsigned (ident_length i)
                           else Identity_ToString i
                       | None \<Rightarrow> ''Identity indeterminate'']
        in StrJoin v2 [CHR 0x0A])"

definition LogSummary :: "Summarizer \<Rightarrow> Summarizer" where
  "LogSummary s =
     SAFELOG ERROR (ident s @ '' '' @ Summary s)
       (if active s then SAFELOG INFO ''Identifying'' s else s)"

definition Report :: "Summarizer \<Rightarrow> size_t \<Rightarrow> uint8_t \<Rightarrow> string \<Rightarrow> Summarizer" where
  "Report s position color error =
     (let s1 = s\<lparr>total_fails := total_fails s + 1\<rparr>;
          s2 = (if \<not> IsSquelched s1
                then
                  let s1a = (if active s1 \<and> position \<noteq> range_end s1 + 1
                             then (Clear ((LogSummary s1)\<lparr>range_count := range_count s1 + 1\<rparr>))
                                     \<lparr>range_start := position\<rparr>
                             else s1)
                  in SAFELOG ERROR (ident s1a @ '' '' @ error) s1a
                else s1);
          s3 = (if \<not> active s2
                then s2\<lparr>range_count := 1, range_start := position, active := True\<rparr>
                else s2)
      in s3\<lparr>range_end := position,
            range_fails := range_fails s3 + 1,
            histogram := (histogram s3)(color := histogram s3 color + 1)\<rparr>)"

definition Finish :: "Summarizer \<Rightarrow> Summarizer" where
  "Finish s = (if active s then LogSummary s else s)"

text \<open>
  The scan of \<open>SprayPaint::ColorIsRight\<close>: the loop carries \<open>ok\<close> and the summarizer.
  The model returns the verdict together with the summarizer after \<open>Finish\<close>, whose
  \<open>logged\<close> lines are the output of the scan.
\<close>

function ColorIsRight_loop ::
  "SprayPaint \<Rightarrow> size_t \<Rightarrow> uint8_t list \<Rightarrow> size_t \<Rightarrow> size_t \<Rightarrow> bool \<Rightarrow> Summarizer \<Rightarrow> bool \<times> Summarizer" where
  "ColorIsRight_loop sp buffer_id buf buffer_size k ok summarizer =
     (if k < buffer_size
      then
        let color = buf ! unat k in
        if color \<noteq> Color (scast (last_painted_by sp)) buffer_id k
        then ColorIsRight_loop sp buffer_id buf buffer_size (k + 1) False
               (Report summarizer k color (ErrorMessage sp color k))
        else ColorIsRight_loop sp buffer_id buf buffer_size (k + 1) ok summarizer
      else (ok, summarizer))"
  by pat_completeness auto
termination
proof (relation "measure (\<lambda>(sp, buffer_id, buf, buffer_size, k, ok, summarizer). unat buffer_size - unat k)", goal_cases)
  case 1
  show ?case by simp
next
  case (2 sp buffer_id buf buffer_size k ok summarizer x)
  then have "unat k < unat buffer_size" by (simp add: word_less_nat_alt)
  moreover have "unat buffer_size < 2 ^ 64" using unsigned_less [of buffer_size] by simp
  ultimately have "unat (k + 1) = unat k + 1" by (simp add: unat_word_ariths)
  with \<open>unat k < unat buffer_size\<close> show ?case by simp
next
  case (3 sp buffer_id buf buffer_size k ok summarizer x)
  then have "unat k < unat buffer_size" by (simp add: word_less_nat_alt)
  moreover have "unat buffer_size < 2 ^ 64" using unsigned_less [of buffer_size] by simp
  ultimately have "unat (k + 1) = unat k + 1" by (simp add: unat_word_ariths)
  with \<open>unat k < unat buffer_size\<close> show ?case by simp
qed

declare ColorIsRight_loop.simps [simp del]

definition ColorIsRight ::
  "SprayPaint \<Rightarrow> size_t \<Rightarrow> uint8_t list \<Rightarrow> size_t \<Rightarrow> string \<Rightarrow> bool \<times> Summarizer" where
  "ColorIsRight sp buffer_id buf buffer_size ident0 =
     (let summarizer = Summarizer_ctor (Ident sp ident0 buffer_id) sp buf;
          (ok, summarizer') = ColorIsRight_loop sp buffer_id buf buffer_size 0 True summarizer
      in (ok, Finish summarizer'))"

section \<open>Predicates used to state the properties\<close>


text \<open>A sequence of \<open>Report\<close> calls on one summarizer, in order.\<close>

fun Reports :: "Summarizer \<Rightarrow> (size_t \<times> uint8_t \<times> string) list \<Rightarrow> Summarizer" where
  "Reports s [] = s"
| "Reports s ((position, color, error) # rs) = Reports (Report s position color error) rs"

text \<open>
  What the scan is expected to do, in the words of the specification: the positions
  \<open>0 .. buffer_size - 1\<close> in ascending order whose byte differs from the expected color,
  and the report that the scan makes for each of them.
\<close>

definition mismatches :: "SprayPaint \<Rightarrow> size_t \<Rightarrow> uint8_t list \<Rightarrow> size_t \<Rightarrow> size_t list" where
  "mismatches sp buffer_id buf buffer_size =
     filter (\<lambda>k. buf ! unat k \<noteq> Color (scast (last_painted_by sp)) buffer_id k)
       (map of_nat [0 ..< unat buffer_size])"

definition mismatch_reports ::
  "SprayPaint \<Rightarrow> size_t \<Rightarrow> uint8_t list \<Rightarrow> size_t \<Rightarrow> (size_t \<times> uint8_t \<times> string) list" where
  "mismatch_reports sp buffer_id buf buffer_size =
     map (\<lambda>k. (k, buf ! unat k, ErrorMessage sp (buf ! unat k) k))
       (mismatches sp buffer_id buf buffer_size)"

text \<open>
  A summarizer that has received 599 reports at the adjacent positions 0 .. 598: one more
  report brings its lifetime total to \<open>kSpewLimit\<close>.
\<close>

definition adjacent_reports :: "nat \<Rightarrow> (size_t \<times> uint8_t \<times> string) list" where
  "adjacent_reports n = map (\<lambda>k. (of_nat k, 13, ''junk'')) [0 ..< n]"

definition nearly_squelched :: Summarizer where
  "nearly_squelched =
     Reports (Summarizer_ctor ''test'' \<lparr>round' = 0, kid = 0, last_painted_by = 0\<rparr> [])
       (adjacent_reports 599)"

section \<open>Properties of the color byte format\<close>

lemma unat_ucast8: "unat (ucast (w::size_t) :: uint8_t) = unat w mod 256"
  by (simp add: unsigned_ucast_eq take_bit_eq_mod)

lemma and_zero_of_small:
  fixes r :: "'a::len word"
  assumes "r < 32"
  shows "r AND 0xe0 = 0"
proof -
  from assms have "r < 2 ^ 5" by simp
  then have e: "r AND mask 5 = r" by (rule less_mask_eq)
  have "r AND 0xe0 = (r AND mask 5) AND 0xe0" by (simp add: e)
  also have "\<dots> = r AND (mask 5 AND 0xe0)" by (simp add: ac_simps)
  also have "(mask 5 :: 'a word) AND 0xe0 = 0" 
    by (simp add: mask_eq_exp_minus_1)
  finally show ?thesis by simp
qed

lemma and_self_of_small:
  fixes r :: "'a::len word"
  assumes "r < 32"
  shows "r AND 0x1f = r"
proof -
  from assms have "r < 2 ^ 5" by simp
  then have e: "r AND mask 5 = r" by (rule less_mask_eq)
  then show ?thesis by (simp add: mask_eq_exp_minus_1)
qed

lemma mod29_less: "(i::size_t) mod 29 < 29"
  by (simp add: word_less_nat_alt unat_mod)
lemma mod31_less: "(i::size_t) mod 31 < 31"
  by (simp add: word_less_nat_alt unat_mod)

lemma residue8_low: "unat (ucast (i mod 29 :: size_t) :: uint8_t) = unat i mod 29"
proof -
  have "unat i mod 29 < 256" using mod_less_divisor[of 29 "unat i"] by linarith
  then show ?thesis by (simp add: unat_ucast8 unat_mod)
qed

lemma residue8_high: "unat (ucast (i mod 31 :: size_t) :: uint8_t) = unat i mod 31"
proof -
  have "unat i mod 31 < 256" using mod_less_divisor[of 31 "unat i"] by linarith
  then show ?thesis by (simp add: unat_ucast8 unat_mod)
qed

lemma LowColor_or: "LowColor i = 128 OR ucast (i mod 29)"
  by (simp add: LowColor_def kLowTag_def kLowPrime_def unsigned_or_eq)

lemma HighColor_or: "HighColor i = 64 OR ucast (i mod 31)"
  by (simp add: HighColor_def kHighTag_def kHighPrime_def unsigned_or_eq)

lemma Tag_LowColor: "Tag (LowColor i) = 0x80"
proof -
  have "(ucast (i mod 29) :: uint8_t) < 32"
    by (simp add: word_less_nat_alt residue8_low)
  then show ?thesis
    by (simp add: Tag_def LowColor_or word_ao_dist and_zero_of_small)
qed

lemma Residue_LowColor: "Residue (LowColor i) = ucast (i mod 29)"
proof -
  have "(ucast (i mod 29) :: uint8_t) < 32"
    by (simp add: word_less_nat_alt residue8_low)
  then show ?thesis
    by (simp add: Residue_def LowColor_or word_ao_dist and_self_of_small)
qed

lemma Tag_HighColor: "Tag (HighColor i) = 0x40"
proof -
  have "(ucast (i mod 31) :: uint8_t) < 32"
    by (simp add: word_less_nat_alt residue8_high)
  then show ?thesis
    by (simp add: Tag_def HighColor_or word_ao_dist and_zero_of_small)
qed

lemma Residue_HighColor: "Residue (HighColor i) = ucast (i mod 31)"
proof -
  have "(ucast (i mod 31) :: uint8_t) < 32"
    by (simp add: word_less_nat_alt residue8_high)
  then show ?thesis
    by (simp add: Residue_def HighColor_or word_ao_dist and_self_of_small)
qed

lemma IsValidLowColor_LowColor: "IsValidLowColor (LowColor i)"
  by (simp add: IsValidLowColor_def Tag_LowColor Residue_LowColor kLowTag_def kLowPrime_def
      word_le_nat_alt residue8_low not_le)

lemma IsValidHighColor_HighColor: "IsValidHighColor (HighColor i)"
  by (simp add: IsValidHighColor_def Tag_HighColor Residue_HighColor kHighTag_def kHighPrime_def
      word_le_nat_alt residue8_high not_le)

lemma not_IsValidHighColor_LowColor: "\<not> IsValidHighColor (LowColor i)"
  by (simp add: IsValidHighColor_def Tag_LowColor kHighTag_def)

lemma not_IsValidLowColor_HighColor: "\<not> IsValidLowColor (HighColor i)"
  by (simp add: IsValidLowColor_def Tag_HighColor kLowTag_def)

lemma LowColor_neq_HighColor: "LowColor i \<noteq> HighColor j"
  using Tag_LowColor[of i] Tag_HighColor[of j] by auto

lemma LowColor_eq_iff: "LowColor i = LowColor j \<longleftrightarrow> unat i mod 29 = unat j mod 29"
proof
  assume "LowColor i = LowColor j"
  then have "Residue (LowColor i) = Residue (LowColor j)" by simp
  then have "unat (ucast (i mod 29) :: uint8_t) = unat (ucast (j mod 29) :: uint8_t)"
    by (simp add: Residue_LowColor)
  then show "unat i mod 29 = unat j mod 29" by (simp add: residue8_low)
next
  assume "unat i mod 29 = unat j mod 29"
  then have "i mod 29 = j mod 29" by (simp add: word_unat_eq_iff unat_mod)
  then show "LowColor i = LowColor j" by (simp add: LowColor_or)
qed

lemma HighColor_eq_iff: "HighColor i = HighColor j \<longleftrightarrow> unat i mod 31 = unat j mod 31"
proof
  assume "HighColor i = HighColor j"
  then have "Residue (HighColor i) = Residue (HighColor j)" by simp
  then have "unat (ucast (i mod 31) :: uint8_t) = unat (ucast (j mod 31) :: uint8_t)"
    by (simp add: Residue_HighColor)
  then show "unat i mod 31 = unat j mod 31" by (simp add: residue8_high)
next
  assume "unat i mod 31 = unat j mod 31"
  then have "i mod 31 = j mod 31" by (simp add: word_unat_eq_iff unat_mod)
  then show "HighColor i = HighColor j" by (simp add: HighColor_or)
qed


lemma unat_inc:
  fixes k n :: "'a::len word"
  assumes "k < n"
  shows "unat (k + 1) = Suc (unat k)"
proof -
  have a: "unat k < unat n" using assms by (simp add: word_less_nat_alt)
  have b: "unat n < 2 ^ LENGTH('a)" by (rule unsigned_less)
  from a b have "unat k + 1 < 2 ^ LENGTH('a)" by linarith
  then show ?thesis by (simp add: unat_word_ariths)
qed

lemma crt_bound: "(ucast kLowPrime * ucast kHighPrime :: size_t) = 899"
  by (simp add: kLowPrime_def kHighPrime_def)

lemma crt_unique_le:
  fixes a b :: nat
  assumes "b \<le> a" and "a < 899" and "a mod 29 = b mod 29" and "a mod 31 = b mod 31"
  shows "a = b"
proof (rule ccontr)
  assume "a \<noteq> b"
  with assms(1) have pos: "0 < a - b" by simp
  have d29: "29 dvd a - b" using assms(1,3) by (simp add: mod_eq_dvd_iff_nat)
  have d31: "31 dvd a - b" using assms(1,4) by (simp add: mod_eq_dvd_iff_nat)
  have "coprime (29::nat) 31" by (simp add: coprime_iff_gcd_eq_1 gcd_nat.simps)
  with d29 d31 have "29 * 31 dvd a - b" by (rule divides_mult)
  from dvd_imp_le [OF this pos] have "29 * 31 \<le> a - b" .
  with assms(2) show False by simp
qed

lemma crt_unique:
  fixes a b :: nat
  assumes "a < 899" and "b < 899" and "a mod 29 = b mod 29" and "a mod 31 = b mod 31"
  shows "a = b"
proof (cases "b \<le> a")
  case True
  then show ?thesis using assms by (rule_tac crt_unique_le) simp_all
next
  case False
  then have "a \<le> b" by simp
  then have "b = a" using assms by (rule_tac crt_unique_le) simp_all
  then show ?thesis by simp
qed

lemma Crt_loop_found:
  assumes "unat k \<le> unat i" and "i < 899"
    and "LowColor i = cl" and "HighColor i = ch"
    and "\<forall>j. unat k \<le> unat j \<and> unat j < unat i \<longrightarrow> \<not> (LowColor j = cl \<and> HighColor j = ch)"
  shows "Crt_loop cl ch k = i"
  using assms
proof (induction cl ch k rule: Crt_loop.induct)
  case (1 c_low c_high k)
  show ?case
  proof (cases "k = i")
    case True
    with "1.prems" show ?thesis
      by (simp add: Crt_loop.simps [of c_low c_high i] crt_bound)
  next
    case False
    with "1.prems"(1) have lt: "unat k < unat i"
      by (simp add: word_unat_eq_iff)
    then have kb: "k < ucast kLowPrime * ucast kHighPrime"
      using "1.prems"(2) by (simp add: crt_bound word_less_nat_alt)
    from lt have ki: "k < i" by (simp add: word_less_nat_alt)
    have nomatch: "\<not> (LowColor k = c_low \<and> HighColor k = c_high)"
      using "1.prems"(5) lt by blast
    have step: "unat (k + 1) = Suc (unat k)" by (rule unat_inc [OF ki])
    have "Crt_loop c_low c_high (k + 1) = i"
    proof (rule "1.IH" [OF kb nomatch _ "1.prems"(2,3,4)])
      show "unat (k + 1) \<le> unat i" using lt step by simp
      show "\<forall>j. unat (k + 1) \<le> unat j \<and> unat j < unat i \<longrightarrow> \<not> (LowColor j = c_low \<and> HighColor j = c_high)"
        using "1.prems"(5) step by auto
    qed
    with kb nomatch show ?thesis
      by (auto simp: Crt_loop.simps [of c_low c_high k])
  qed
qed

lemma Crt_loop_none:
  assumes "\<forall>j. unat k \<le> unat j \<and> j < 899 \<longrightarrow> \<not> (LowColor j = cl \<and> HighColor j = ch)"
  shows "Crt_loop cl ch k = 0"
  using assms
proof (induction cl ch k rule: Crt_loop.induct)
  case (1 c_low c_high k)
  show ?case
  proof (cases "k < 899")
    case False
    then show ?thesis by (subst Crt_loop.simps) (simp add: crt_bound)
  next
    case True
    then have kb: "k < ucast kLowPrime * ucast kHighPrime" by (simp add: crt_bound)
    have nomatch: "\<not> (LowColor k = c_low \<and> HighColor k = c_high)"
      using "1.prems" True by blast
    have step: "unat (k + 1) = Suc (unat k)" by (rule unat_inc [OF True])
    have "Crt_loop c_low c_high (k + 1) = 0"
    proof (rule "1.IH" [OF kb nomatch])
      show "\<forall>j. unat (k + 1) \<le> unat j \<and> j < 899 \<longrightarrow> \<not> (LowColor j = c_low \<and> HighColor j = c_high)"
        using "1.prems" step by auto
    qed
    with kb nomatch show ?thesis
      by (auto simp: Crt_loop.simps [of c_low c_high k])
  qed
qed

section \<open>The Chinese-Remainder search\<close>

lemma Crt_LowColor_HighColor:
  assumes "i < 899"
  shows "Crt (LowColor i) (HighColor i) = i"
proof (cases "i = 0")
  case True
  have "\<forall>j. unat (1::size_t) \<le> unat j \<and> j < 899 \<longrightarrow> \<not> (LowColor j = LowColor 0 \<and> HighColor j = HighColor 0)"
  proof (intro allI impI notI)
    fix j :: size_t
    assume a: "unat (1::size_t) \<le> unat j \<and> j < 899"
      and m: "LowColor j = LowColor 0 \<and> HighColor j = HighColor 0"
    from a have "unat j < 899" by (simp add: word_less_nat_alt)
    moreover from m have "unat j mod 29 = 0 mod 29" "unat j mod 31 = 0 mod 31"
      by (simp_all add: LowColor_eq_iff HighColor_eq_iff)
    ultimately have "unat j = 0" using crt_unique [of "unat j" 0] by simp
    with a show False by simp
  qed
  then have "Crt_loop (LowColor 0) (HighColor 0) 1 = 0" by (rule Crt_loop_none)
  with True show ?thesis by (simp add: Crt_def)
next
  case False
  then have pos: "unat (1::size_t) \<le> unat i"
    by (simp add: unat_gt_0 Suc_le_eq)
  have "Crt_loop (LowColor i) (HighColor i) 1 = i"
  proof (rule Crt_loop_found [OF pos assms refl refl], intro allI impI notI)
    fix j :: size_t
    assume a: "unat (1::size_t) \<le> unat j \<and> unat j < unat i"
      and m: "LowColor j = LowColor i \<and> HighColor j = HighColor i"
    from assms have "unat i < 899" by (simp add: word_less_nat_alt)
    moreover from a this have "unat j < 899" by simp
    moreover from m have "unat j mod 29 = unat i mod 29" "unat j mod 31 = unat i mod 31"
      by (simp_all add: LowColor_eq_iff HighColor_eq_iff)
    ultimately have "unat j = unat i" using crt_unique [of "unat j" "unat i"] by simp
    with a show False by simp
  qed
  then show ?thesis by (simp add: Crt_def)
qed

text \<open>
  Claim C2. For every identity in [0, 899) the search applied to that identity's pair of
  encoded colors returns exactly that identity, \<open>Crt (LowColor id) (HighColor id) = id\<close>,
  also at identity 0, where the loop finds no owner among 1..898 and falls through.
\<close>

theorem Crt_recovers_identity:
  assumes "i < 899"
  shows "Crt (LowColor i) (HighColor i) = i"
  using assms by (rule Crt_LowColor_HighColor)

theorem Crt_recovers_identity_witness:
  "(0 :: size_t) < 899 \<and> Crt (LowColor 0) (HighColor 0) = 0"
  using Crt_recovers_identity [of 0] by simp

text \<open>The definitions that evaluate the color functions on concrete bytes.\<close>

lemmas eval_color = Color_def ColorSelector_def kPeriod_def LowColor_def HighColor_def
  kLowTag_def kHighTag_def kLowPrime_def kHighPrime_def IsValidLowColor_def IsValidHighColor_def
  Tag_def Residue_def

section \<open>Periodicity of the expected color\<close>

lemma unat_selector_sum:
  assumes "unat b + unat p < 2 ^ 64"
  shows "unat ((b + p) mod kPeriod) = (unat b + unat p) mod 7"
proof -
  from assms have "unat (b + p) = unat b + unat p"
    by (simp add: unat_word_ariths)
  then show ?thesis by (simp add: kPeriod_def unat_mod)
qed

lemma ColorSelector_nat:
  assumes "unat b + unat p < 2 ^ 64"
  shows "ColorSelector b p = (if (unat b + unat p) mod 7 < 3 then 0 else 1)"
proof -
  have "((b + p) mod kPeriod < kPeriod div 2) = ((unat b + unat p) mod 7 < 3)"
    by (simp add: word_less_nat_alt unat_selector_sum [OF assms]) (simp add: kPeriod_def)
  then show ?thesis by (simp add: ColorSelector_def Let_def)
qed

lemma ColorSelector_mod_period:
  assumes "unat b + unat p < 2 ^ 64"
  shows "ColorSelector (b mod kPeriod) p = ColorSelector b p"
proof -
  have "unat (b mod kPeriod) = unat b mod 7" by (simp add: kPeriod_def unat_mod)
  moreover have "unat b mod 7 \<le> unat b" by simp
  ultimately have small: "unat (b mod kPeriod) + unat p < 2 ^ 64" using assms by linarith
  have "(unat (b mod kPeriod) + unat p) mod 7 = (unat b + unat p) mod 7"
    by (simp add: kPeriod_def unat_mod mod_add_left_eq)
  then show ?thesis
    by (simp add: ColorSelector_nat [OF small] ColorSelector_nat [OF assms])
qed

lemma ColorSelector_shift_period:
  assumes "unat b + unat p + 7 < 2 ^ 64"
  shows "ColorSelector (b + kPeriod) p = ColorSelector b p"
proof -
  from assms have "unat b + 7 < 2 ^ 64" by linarith
  then have "(unat b + 7) mod 2 ^ 64 = unat b + 7" by (rule mod_less)
  then have ub: "unat (b + kPeriod) = unat b + 7"
    by (simp add: unat_word_ariths kPeriod_def)
  with assms have small: "unat (b + kPeriod) + unat p < 2 ^ 64" by linarith
  from assms have small': "unat b + unat p < 2 ^ 64" by linarith
  have "unat b + 7 + unat p = (unat b + unat p) + 7" by simp
  then have "(unat b + 7 + unat p) mod 7 = (unat b + unat p) mod 7"
    by (simp only: mod_add_self2)
  then show ?thesis
    by (simp add: ColorSelector_nat [OF small] ColorSelector_nat [OF small'] ub)
qed

lemma LowColor_mod_899: "LowColor (i mod 899) = LowColor i"
  by (simp add: LowColor_eq_iff unat_mod mod_mod_cancel)

lemma HighColor_mod_899: "HighColor (i mod 899) = HighColor i"
  by (simp add: HighColor_eq_iff unat_mod mod_mod_cancel)

lemma Color_identity_mod: "Color (i mod 899) b p = Color i b p"
  by (simp add: Color_def LowColor_mod_899 HighColor_mod_899)

text \<open>
  Claim C10 says that \<open>Color identity bufferId position\<close> depends on \<open>bufferId\<close> only
  modulo 7, for every \<open>bufferId\<close> and position. The sum \<open>buffer_id + position\<close> is a
  \<open>size_t\<close> sum, and \<open>2 ^ 64\<close> is not a multiple of 7: where the sum wraps, the
  reduced buffer id selects the other color.
\<close>

theorem Color_periodic_counterexample: "Color 0 18446744073709551615 2 \<noteq> Color (0 mod 899) (18446744073709551615 mod 7) 2"
  by (simp add: Color_def ColorSelector_def kPeriod_def LowColor_def HighColor_def
      kLowTag_def kHighTag_def kLowPrime_def kHighPrime_def)

text \<open>
  Claim C10, as amended. The expected color depends on the identity only modulo 899, for
  all arguments. Whenever \<open>buffer_id + position\<close> does not wrap, it depends on the buffer
  id only modulo 7, and when \<open>buffer_id + 7 + position\<close> does not wrap either, shifting
  the buffer id by 7 leaves the color at that position unchanged.
\<close>

theorem Color_periodic:
  "Color identity buffer_id position = Color (identity mod 899) buffer_id position
   \<and> (unat buffer_id + unat position < 2 ^ 64 \<longrightarrow>
        Color identity buffer_id position = Color (identity mod 899) (buffer_id mod 7) position)
   \<and> (unat buffer_id + unat position + 7 < 2 ^ 64 \<longrightarrow>
        Color identity (buffer_id + 7) position = Color identity buffer_id position)"
proof (intro conjI impI)
  show "Color identity buffer_id position = Color (identity mod 899) buffer_id position"
    by (simp add: Color_identity_mod)
next
  assume "unat buffer_id + unat position < 2 ^ 64"
  from ColorSelector_mod_period [OF this]
  show "Color identity buffer_id position = Color (identity mod 899) (buffer_id mod 7) position"
    by (simp add: Color_def LowColor_mod_899 HighColor_mod_899 kPeriod_def)
next
  assume "unat buffer_id + unat position + 7 < 2 ^ 64"
  from ColorSelector_shift_period [OF this]
  show "Color identity (buffer_id + 7) position = Color identity buffer_id position"
    by (simp add: Color_def kPeriod_def)
qed

theorem Color_periodic_witness:
  "unat (1000 :: size_t) + unat (5 :: size_t) < 2 ^ 64
   \<and> unat (1000 :: size_t) + unat (5 :: size_t) + 7 < 2 ^ 64
   \<and> Color 1000 1000 5 = Color (1000 mod 899) 1000 5
   \<and> Color 1000 1000 5 = Color (1000 mod 899) (1000 mod 7) 5
   \<and> Color 1000 (1000 + 7) 5 = Color 1000 1000 5"
  using Color_periodic [of 1000 1000 5] by auto

section \<open>The search on the pairs it is given\<close>











section \<open>Paint and ColorMatch\<close>

lemma Paint_loop_length: "length (Paint_loop identity buffer_id buf len k) = length buf"
proof (induction identity buffer_id buf len k rule: Paint_loop.induct)
  case (1 identity buffer_id buf len k)
  show ?case
  proof (cases "k < len")
    case True
    with 1 show ?thesis by (simp add: Paint_loop.simps [of identity buffer_id buf len k])
  next
    case False
    then show ?thesis by (simp add: Paint_loop.simps [of identity buffer_id buf len k])
  qed
qed

lemma Paint_loop_nth:
  assumes "unat len \<le> length buf"
  shows "Paint_loop identity buffer_id buf len k ! n =
         (if unat k \<le> n \<and> n < unat len then Color identity buffer_id (of_nat n) else buf ! n)"
  using assms
proof (induction identity buffer_id buf len k rule: Paint_loop.induct)
  case (1 identity buffer_id buf len k)
  show ?case
  proof (cases "k < len")
    case False
    then have "unat len \<le> unat k" by (simp add: word_less_nat_alt not_less)
    then have "\<not> (unat k \<le> n \<and> n < unat len)" by linarith
    with False show ?thesis by (auto simp: Paint_loop.simps [of identity buffer_id buf len k])
  next
    case True
    then have lt: "unat k < unat len" by (simp add: word_less_nat_alt)
    have step: "unat (k + 1) = Suc (unat k)" by (rule unat_inc [OF True])
    have len': "unat len \<le> length (buf[unat k := Color identity buffer_id k])"
      using "1.prems" by simp
    have rec: "Paint_loop identity buffer_id buf len k ! n =
          Paint_loop identity buffer_id (buf[unat k := Color identity buffer_id k]) len (k + 1) ! n"
      using True by (simp add: Paint_loop.simps [of identity buffer_id buf len k])
    have inb: "unat k < length buf" using lt "1.prems" by linarith
    have "Paint_loop identity buffer_id buf len k ! n =
          (if unat (k + 1) \<le> n \<and> n < unat len then Color identity buffer_id (of_nat n)
           else buf[unat k := Color identity buffer_id k] ! n)"
      unfolding rec by (rule "1.IH" [OF True len'])
    also have "\<dots> = (if unat k \<le> n \<and> n < unat len then Color identity buffer_id (of_nat n)
                      else buf ! n)"
    proof (cases "n = unat k")
      case True
      then have "of_nat n = k" by simp
      with True lt inb show ?thesis by (simp add: step)
    next
      case False
      then show ?thesis by (auto simp: step)
    qed
    finally show ?thesis .
  qed
qed

lemma Paint_nth:
  assumes "unat len \<le> length buf" and "j < len"
  shows "Paint identity buffer_id buf len ! unat j = Color identity buffer_id j"
  using assms by (simp add: Paint_def Paint_loop_nth word_less_nat_alt)

lemma Paint_length: "length (Paint identity buffer_id buf len) = length buf"
  by (simp add: Paint_def Paint_loop_length)

lemma ColorMatch_loop_all:
  assumes "\<forall>j. unat k \<le> unat j \<and> j < len \<longrightarrow> buf ! unat j = Color identity phase j"
  shows "ColorMatch_loop identity phase buf len k = len"
  using assms
proof (induction identity phase buf len k rule: ColorMatch_loop.induct)
  case (1 identity phase buf len k)
  show ?case
  proof (cases "k < len")
    case False
    then show ?thesis by (simp add: ColorMatch_loop.simps [of identity phase buf len k])
  next
    case True
    have here: "\<not> buf ! unat k \<noteq> Color identity phase k" using "1.prems" True by simp
    have step: "unat (k + 1) = Suc (unat k)" by (rule unat_inc [OF True])
    have "ColorMatch_loop identity phase buf len (k + 1) = len"
    proof (rule "1.IH" [OF True here])
      show "\<forall>j. unat (k + 1) \<le> unat j \<and> j < len \<longrightarrow> buf ! unat j = Color identity phase j"
        using "1.prems" step by auto
    qed
    with True here show ?thesis by (simp add: ColorMatch_loop.simps [of identity phase buf len k])
  qed
qed

lemma ColorMatch_loop_first:
  assumes "unat k \<le> unat p" and "p < len" and "buf ! unat p \<noteq> Color identity phase p"
    and "\<forall>j. unat k \<le> unat j \<and> unat j < unat p \<longrightarrow> buf ! unat j = Color identity phase j"
  shows "ColorMatch_loop identity phase buf len k = p"
  using assms
proof (induction identity phase buf len k rule: ColorMatch_loop.induct)
  case (1 identity phase buf len k)
  show ?case
  proof (cases "k = p")
    case True
    with "1.prems" show ?thesis by (simp add: ColorMatch_loop.simps [of identity phase buf len p])
  next
    case False
    with "1.prems"(1) have lt: "unat k < unat p" by (simp add: word_unat_eq_iff)
    then have kp: "k < p" by (simp add: word_less_nat_alt)
    with "1.prems"(2) have kl: "k < len" by simp
    have here: "\<not> buf ! unat k \<noteq> Color identity phase k" using "1.prems"(4) lt by simp
    have step: "unat (k + 1) = Suc (unat k)" by (rule unat_inc [OF kl])
    have "ColorMatch_loop identity phase buf len (k + 1) = p"
    proof (rule "1.IH" [OF kl here _ "1.prems"(2,3)])
      show "unat (k + 1) \<le> unat p" using lt step by simp
      show "\<forall>j. unat (k + 1) \<le> unat j \<and> unat j < unat p \<longrightarrow> buf ! unat j = Color identity phase j"
        using "1.prems"(4) step by auto
    qed
    with kl here show ?thesis by (simp add: ColorMatch_loop.simps [of identity phase buf len k])
  qed
qed

lemma ColorMatch_all:
  assumes "\<forall>j. j < len \<longrightarrow> buf ! unat j = Color identity phase j"
  shows "ColorMatch identity phase buf len = len"
  unfolding ColorMatch_def using assms by (intro ColorMatch_loop_all) simp

lemma ColorMatch_first:
  assumes "p < len" and "buf ! unat p \<noteq> Color identity phase p"
    and "\<forall>j. j < p \<longrightarrow> buf ! unat j = Color identity phase j"
  shows "ColorMatch identity phase buf len = p"
  unfolding ColorMatch_def using assms
  by (intro ColorMatch_loop_first) (simp_all add: word_less_nat_alt)

lemma Color_valid: "IsValidLowColor (Color i b p) \<or> IsValidHighColor (Color i b p)"
  by (simp add: Color_def IsValidLowColor_LowColor IsValidHighColor_HighColor)

lemma ColorMatch_le: "ColorMatch identity phase buf len \<le> len"
proof (cases "\<forall>j. j < len \<longrightarrow> buf ! unat j = Color identity phase j")
  case True
  then show ?thesis by (simp add: ColorMatch_all)
next
  case False
  then have ex: "\<exists>n. n < unat len \<and> buf ! n \<noteq> Color identity phase (of_nat n)"
    by (metis word_less_nat_alt of_nat_unat ucast_id)
  define n where "n = (LEAST n. n < unat len \<and> buf ! n \<noteq> Color identity phase (of_nat n))"
  from ex have n: "n < unat len \<and> buf ! n \<noteq> Color identity phase (of_nat n)"
    unfolding n_def by (rule LeastI_ex)
  have least: "\<And>m. m < n \<Longrightarrow> \<not> (m < unat len \<and> buf ! m \<noteq> Color identity phase (of_nat m))"
    unfolding n_def by (rule not_less_Least)
  have "unat len < 2 ^ 64" using unsigned_less [of len] by simp
  with n have "n < 2 ^ 64" by linarith
  then have un: "unat (of_nat n :: size_t) = n" by (simp add: unat_of_nat)
  have "ColorMatch identity phase buf len = of_nat n"
  proof (rule ColorMatch_first)
    show "(of_nat n :: size_t) < len" using n un by (simp add: word_less_nat_alt)
    show "buf ! unat (of_nat n :: size_t) \<noteq> Color identity phase (of_nat n)" using n un by simp
    show "\<forall>j. j < of_nat n \<longrightarrow> buf ! unat j = Color identity phase j"
    proof (intro allI impI)
      fix j :: size_t
      assume "j < of_nat n"
      then have "unat j < n" using un by (simp add: word_less_nat_alt)
      from least [OF this] n this show "buf ! unat j = Color identity phase j" by simp
    qed
  qed
  moreover have "(of_nat n :: size_t) \<le> len" using n un by (simp add: word_le_nat_alt)
  ultimately show ?thesis by simp
qed

text \<open>
  Claim C8 (prefix law). \<open>ColorMatch\<close> on a buffer whose every byte equals the expected
  pattern returns the length; this holds in particular for a buffer painted with the same
  identity and phase. If the byte at a position \<open>p < length\<close> of a painted buffer is
  replaced by a garbage color (neither a valid Low nor a valid High color), \<open>ColorMatch\<close>
  returns exactly \<open>p\<close>.
\<close>

theorem ColorMatch_prefix_law:
  "((\<forall>j. j < len \<longrightarrow> buf ! unat j = Color identity phase j) \<longrightarrow>
      ColorMatch identity phase buf len = len)
   \<and> (unat len \<le> length buf \<longrightarrow>
        ColorMatch identity phase (Paint identity phase buf len) len = len
        \<and> (\<forall>p g. p < len \<and> \<not> IsValidLowColor g \<and> \<not> IsValidHighColor g \<longrightarrow>
              ColorMatch identity phase ((Paint identity phase buf len)[unat p := g]) len = p))"
proof (intro conjI impI allI)
  assume "\<forall>j. j < len \<longrightarrow> buf ! unat j = Color identity phase j"
  then show "ColorMatch identity phase buf len = len" by (rule ColorMatch_all)
next
  assume "unat len \<le> length buf"
  then show "ColorMatch identity phase (Paint identity phase buf len) len = len"
    by (intro ColorMatch_all) (simp add: Paint_nth)
next
  fix p g
  assume len: "unat len \<le> length buf"
    and pg: "p < len \<and> \<not> IsValidLowColor g \<and> \<not> IsValidHighColor g"
  let ?B = "Paint identity phase buf len"
  from pg have lt: "unat p < unat len" by (simp add: word_less_nat_alt)
  with len have inb: "unat p < length ?B" by (simp add: Paint_length)
  show "ColorMatch identity phase (?B[unat p := g]) len = p"
  proof (rule ColorMatch_first)
    show "p < len" using pg by simp
    show "?B[unat p := g] ! unat p \<noteq> Color identity phase p"
      using inb pg Color_valid [of identity phase p] by auto
    show "\<forall>j. j < p \<longrightarrow> ?B[unat p := g] ! unat j = Color identity phase j"
    proof (intro allI impI)
      fix j assume "j < p"
      then have "unat j \<noteq> unat p" and "j < len" using pg by (auto simp: word_less_nat_alt)
      then show "?B[unat p := g] ! unat j = Color identity phase j"
        using len by (simp add: Paint_nth)
    qed
  qed
qed

theorem ColorMatch_prefix_law_witness:
  "unat (8 :: size_t) \<le> length (replicate 8 (0 :: uint8_t))
   \<and> (5 :: size_t) < 8 \<and> \<not> IsValidLowColor 11 \<and> \<not> IsValidHighColor 11
   \<and> ColorMatch 3 1 (Paint 3 1 (replicate 8 0) 8) 8 = 8
   \<and> ColorMatch 3 1 ((Paint 3 1 (replicate 8 0) 8)[unat (5 :: size_t) := 11]) 8 = 5"
proof -
  have h: "unat (8 :: size_t) \<le> length (replicate 8 (0 :: uint8_t))" by simp
  have p: "(5 :: size_t) < 8" by simp
  have g: "\<not> IsValidLowColor 11" "\<not> IsValidHighColor 11"
    by (simp_all add: IsValidLowColor_def IsValidHighColor_def Tag_def kLowTag_def kHighTag_def)
  have all: "\<forall>j :: size_t. j < 8 \<longrightarrow> Paint 3 1 (replicate 8 0) 8 ! unat j = Color 3 1 j"
    using h by (simp add: Paint_nth)
  from ColorMatch_prefix_law [of 8 "Paint 3 1 (replicate 8 0) 8" 3 1] all
  have "ColorMatch 3 1 (Paint 3 1 (replicate 8 0) 8) 8 = 8" by blast
  moreover from ColorMatch_prefix_law [of 8 "replicate 8 0" 3 1] h p g
  have "ColorMatch 3 1 ((Paint 3 1 (replicate 8 0) 8)[unat (5 :: size_t) := 11]) 8 = 5" by blast
  ultimately show ?thesis using h p g by blast
qed

section \<open>When Identify gives no result\<close>

lemma Candidates_scan_constant:
  assumes "\<forall>j. unat k \<le> unat j \<and> j < min len kPeriod \<longrightarrow> buf ! unat j = c_0"
  shows "min len kPeriod \<le> Candidates_scan buf len c_0 k"
  using assms
proof (induction buf len c_0 k rule: Candidates_scan.induct)
  case (1 buf len c_0 k)
  show ?case
  proof (cases "k < min len kPeriod")
    case False
    then have "Candidates_scan buf len c_0 k = k"
      by (simp only: Candidates_scan.simps [of buf len c_0 k] simp_thms if_False)
    with False show ?thesis by (simp only: not_less)
  next
    case True
    have here: "buf ! unat k = c_0" using "1.prems" True by blast
    have step: "unat (k + 1) = Suc (unat k)" by (rule unat_inc [OF True])
    have all': "\<forall>j. unat (k + 1) \<le> unat j \<and> j < min len kPeriod \<longrightarrow> buf ! unat j = c_0"
      using "1.prems" step by auto
    have rec: "Candidates_scan buf len c_0 k = Candidates_scan buf len c_0 (k + 1)"
      using True here by (simp only: Candidates_scan.simps [of buf len c_0 k] simp_thms if_True)
    from "1.IH" [OF conjI [OF True here] all'] show ?thesis unfolding rec .
  qed
qed

lemma Candidates_scan_first:
  assumes "unat k0 \<le> unat k" and "k < min len kPeriod" and "buf ! unat k \<noteq> c_0"
    and "\<forall>n. unat k0 \<le> n \<and> n < unat k \<longrightarrow> buf ! n = c_0"
  shows "Candidates_scan buf len c_0 k0 = k"
  using assms
proof (induction buf len c_0 k0 rule: Candidates_scan.induct)
  case (1 buf len c_0 k0)
  show ?case
  proof (cases "k0 = k")
    case True
    with "1.prems"(3) show ?thesis
      by (simp only: Candidates_scan.simps [of buf len c_0 k] simp_thms if_False)
  next
    case False
    with "1.prems"(1) have lt: "unat k0 < unat k" by (simp add: word_unat_eq_iff)
    then have "k0 < k" by (simp add: word_less_nat_alt)
    from this "1.prems"(2) have kl: "k0 < min len kPeriod" by (rule less_trans)
    have here: "buf ! unat k0 = c_0" using "1.prems"(4) lt by simp
    have step: "unat (k0 + 1) = Suc (unat k0)" by (rule unat_inc [OF kl])
    have rec: "Candidates_scan buf len c_0 k0 = Candidates_scan buf len c_0 (k0 + 1)"
      using kl here by (simp only: Candidates_scan.simps [of buf len c_0 k0] simp_thms if_True)
    have "Candidates_scan buf len c_0 (k0 + 1) = k"
    proof (rule "1.IH" [OF conjI [OF kl here] _ "1.prems"(2,3)])
      show "unat (k0 + 1) \<le> unat k" using lt step by simp
      show "\<forall>n. unat (k0 + 1) \<le> n \<and> n < unat k \<longrightarrow> buf ! n = c_0"
        using "1.prems"(4) step by auto
    qed
    then show ?thesis unfolding rec .
  qed
qed

lemma Candidates_short: "len < 2 \<Longrightarrow> Candidates buf len = None"
  by (simp add: Candidates_def)

lemma Candidates_constant:
  assumes "\<forall>j. j < len \<longrightarrow> buf ! unat j = c"
  shows "Candidates buf len = None"
proof (cases "len < 2")
  case True
  then show ?thesis by (rule Candidates_short)
next
  case False
  then have "(0::size_t) < len" by (simp add: word_less_nat_alt not_less)
  with assms have c0: "buf ! 0 = c" by force
  have "\<forall>j. unat (1::size_t) \<le> unat j \<and> j < min len kPeriod \<longrightarrow> buf ! unat j = buf ! 0"
    using assms c0 by simp
  then have "min len kPeriod \<le> Candidates_scan buf len (buf ! 0) 1"
    by (rule Candidates_scan_constant)
  then show ?thesis by (simp add: Candidates_def Let_def)
qed

lemma Candidates_bad_transition:
  assumes "unat (1::size_t) \<le> unat k" and "k < min len kPeriod" and "buf ! unat k \<noteq> buf ! 0"
    and "\<forall>n. 1 \<le> n \<and> n < unat k \<longrightarrow> buf ! n = buf ! 0"
    and "\<not> ((IsValidLowColor (buf ! 0) \<and> IsValidHighColor (buf ! unat k))
           \<or> (IsValidLowColor (buf ! unat k) \<and> IsValidHighColor (buf ! 0)))"
  shows "Candidates buf len = None"
proof -
  have "Candidates_scan buf len (buf ! 0) 1 = k"
    using assms(1-4) by (intro Candidates_scan_first) simp_all
  with assms(2,5) show ?thesis by (auto simp: Candidates_def Let_def)
qed

lemma Identify_short_evidence:
  assumes "len \<le> 7"
  shows "Identify buf len = None"
proof (cases "Candidates buf len")
  case None
  then show ?thesis by (simp add: Identify_def)
next
  case (Some c)
  have "ColorMatch (cand_identity c) (cand_phase c) buf len \<le> len" by (rule ColorMatch_le)
  with assms have "ColorMatch (cand_identity c) (cand_phase c) buf len \<le> kPeriod"
    by (simp add: kPeriod_def)
  with Some show ?thesis by (simp add: Identify_def Let_def)
qed

text \<open>
  Claim C7. \<open>Identify\<close> is a total function that returns an optional result and has no
  failing path. It returns no result in each of these cases: the length is below 2; the
  buffer is filled with one repeated byte, for any length; the first transition, at the first
  index \<open>k\<close> in the window of at most 7 bytes whose byte differs from byte 0, is not one
  valid Low color and one valid High color; the matched length recomputed for the candidate
  is at most 7. The last case covers every buffer of at most 7 bytes.
\<close>

theorem Identify_absent:
  "(len < 2 \<longrightarrow> Identify buf len = None)
   \<and> ((\<forall>j. j < len \<longrightarrow> buf ! unat j = c) \<longrightarrow> Identify buf len = None)
   \<and> ((1 \<le> k \<and> k < min len kPeriod \<and> buf ! unat k \<noteq> buf ! 0
        \<and> (\<forall>j. 1 \<le> j \<and> j < k \<longrightarrow> buf ! unat j = buf ! 0)
        \<and> \<not> ((IsValidLowColor (buf ! 0) \<and> IsValidHighColor (buf ! unat k))
              \<or> (IsValidLowColor (buf ! unat k) \<and> IsValidHighColor (buf ! 0))))
       \<longrightarrow> Identify buf len = None)
   \<and> ((\<forall>cand. Candidates buf len = Some cand \<longrightarrow>
          ColorMatch (cand_identity cand) (cand_phase cand) buf len \<le> 7)
       \<longrightarrow> Identify buf len = None)
   \<and> (len \<le> 7 \<longrightarrow> Identify buf len = None)"
proof (intro conjI impI)
  assume "len < 2"
  then show "Identify buf len = None" by (simp add: Identify_def Candidates_short)
next
  assume "\<forall>j. j < len \<longrightarrow> buf ! unat j = c"
  then have "Candidates buf len = None" by (rule Candidates_constant)
  then show "Identify buf len = None" by (simp add: Identify_def)
next
  assume a: "1 \<le> k \<and> k < min len kPeriod \<and> buf ! unat k \<noteq> buf ! 0
        \<and> (\<forall>j. 1 \<le> j \<and> j < k \<longrightarrow> buf ! unat j = buf ! 0)
        \<and> \<not> ((IsValidLowColor (buf ! 0) \<and> IsValidHighColor (buf ! unat k))
              \<or> (IsValidLowColor (buf ! unat k) \<and> IsValidHighColor (buf ! 0)))"
  have "Candidates buf len = None"
  proof (rule Candidates_bad_transition [of k])
    show "unat (1::size_t) \<le> unat k" using a by (simp add: word_le_nat_alt)
    show "k < min len kPeriod" using a by simp
    show "buf ! unat k \<noteq> buf ! 0" using a by simp
    show "\<forall>n. 1 \<le> n \<and> n < unat k \<longrightarrow> buf ! n = buf ! 0"
    proof (intro allI impI)
      fix n :: nat
      assume n: "1 \<le> n \<and> n < unat k"
      have "unat k < 2 ^ 64" using unsigned_less [of k] by simp
      with n have "n < 2 ^ 64" by linarith
      then have un: "unat (of_nat n :: size_t) = n" by (simp add: unat_of_nat)
      with n have "1 \<le> (of_nat n :: size_t) \<and> (of_nat n :: size_t) < k"
        by (simp add: word_le_nat_alt word_less_nat_alt)
      with a have "buf ! unat (of_nat n :: size_t) = buf ! 0" by blast
      with un show "buf ! n = buf ! 0" by simp
    qed
    show "\<not> ((IsValidLowColor (buf ! 0) \<and> IsValidHighColor (buf ! unat k))
           \<or> (IsValidLowColor (buf ! unat k) \<and> IsValidHighColor (buf ! 0)))"
      using a by simp
  qed
  then show "Identify buf len = None" by (simp add: Identify_def)
next
  assume "\<forall>cand. Candidates buf len = Some cand \<longrightarrow>
          ColorMatch (cand_identity cand) (cand_phase cand) buf len \<le> 7"
  then show "Identify buf len = None"
    by (cases "Candidates buf len") (simp_all add: Identify_def Let_def kPeriod_def)
next
  assume "len \<le> 7"
  then show "Identify buf len = None" by (rule Identify_short_evidence)
qed

theorem Identify_absent_witness:
  "(1 :: size_t) < 2 \<and> Identify [128] 1 = None
   \<and> Identify (replicate 100 128) 100 = None
   \<and> Identify [128, 129, 64, 64, 64, 64, 64, 128, 128, 128] 10 = None
   \<and> Identify [128, 128, 64, 64, 64, 64, 0, 128, 128, 128] 10 = None
   \<and> (5 :: size_t) \<le> 7 \<and> Identify [128, 128, 64, 64, 64] 5 = None"
proof -
  let ?same_tag = "[128, 129, 64, 64, 64, 64, 64, 128, 128, 128] :: uint8_t list"
  let ?short = "[128, 128, 64, 64, 64, 64, 0, 128, 128, 128] :: uint8_t list"
  have h1: "(1 :: size_t) < 2" by simp
  have h2: "\<forall>j :: size_t. j < 100 \<longrightarrow> replicate 100 (128 :: uint8_t) ! unat j = 128"
    by (simp add: word_less_nat_alt)
  have h3: "(1 :: size_t) \<le> 1 \<and> (1 :: size_t) < min 10 kPeriod
        \<and> ?same_tag ! unat (1 :: size_t) \<noteq> ?same_tag ! 0
        \<and> (\<forall>j :: size_t. 1 \<le> j \<and> j < 1 \<longrightarrow> ?same_tag ! unat j = ?same_tag ! 0)
        \<and> \<not> ((IsValidLowColor (?same_tag ! 0) \<and> IsValidHighColor (?same_tag ! unat (1 :: size_t)))
              \<or> (IsValidLowColor (?same_tag ! unat (1 :: size_t)) \<and> IsValidHighColor (?same_tag ! 0)))"
    by (simp add: eval_color)
  have h4: "\<forall>cand. Candidates ?short 10 = Some cand \<longrightarrow>
          ColorMatch (cand_identity cand) (cand_phase cand) ?short 10 \<le> 7"
    by (simp add: Candidates_def Candidates_scan.simps ColorMatch_def ColorMatch_loop.simps
        Crt_def Let_def eval_color)
  have h5: "(5 :: size_t) \<le> 7" by simp
  from Identify_absent [of 1 "[128]"] h1 have "Identify [128] 1 = None" by blast
  moreover from Identify_absent [of 100 "replicate 100 128" 128] h2
  have "Identify (replicate 100 128) 100 = None" by blast
  moreover from Identify_absent [of 10 ?same_tag _ 1] h3
  have "Identify ?same_tag 10 = None" by blast
  moreover from Identify_absent [of 10 ?short] h4
  have "Identify ?short 10 = None" by blast
  moreover from Identify_absent [of 5 "[128, 128, 64, 64, 64]"] h5
  have "Identify [128, 128, 64, 64, 64] 5 = None" by blast
  ultimately show ?thesis using h1 h5 by blast
qed

section \<open>Round trip of Paint and Identify\<close>

lemma Candidates_scan_at:
  assumes "1 \<le> K" and "K < 7" and "7 < len" and "buf ! K \<noteq> c"
    and "\<And>n. 1 \<le> n \<Longrightarrow> n < K \<Longrightarrow> buf ! n = c"
  shows "Candidates_scan buf len c 1 = of_nat K"
proof -
  from assms(2) have un: "unat (of_nat K :: size_t) = K" by (simp add: unat_of_nat)
  from assms(3) have "(7::size_t) \<le> len" by (rule less_imp_le)
  then have m: "min len kPeriod = 7" by (simp add: kPeriod_def min_absorb2)
  show ?thesis
  proof (rule Candidates_scan_first)
    show "unat (1::size_t) \<le> unat (of_nat K :: size_t)" using assms(1) un by simp
    show "(of_nat K :: size_t) < min len kPeriod" using assms(2) un by (simp add: m word_less_nat_alt)
    show "buf ! unat (of_nat K :: size_t) \<noteq> c" using assms(4) un by simp
    show "\<forall>n. unat (1::size_t) \<le> n \<and> n < unat (of_nat K :: size_t) \<longrightarrow> buf ! n = c"
      using assms(5) un by simp
  qed
qed

lemma Candidates_pattern:
  assumes len: "7 < len"
    and pat: "\<And>n. n < 7 \<Longrightarrow> buf ! n = (if (q + n) mod 7 < 3 then L else H)"
    and q: "q < 7"
    and valid: "IsValidLowColor L" "IsValidHighColor H" "\<not> IsValidHighColor L" "\<not> IsValidLowColor H"
  shows "Candidates buf len = Some \<lparr>cand_identity = Crt L H, cand_phase = of_nat q\<rparr>"
proof -
  from valid have ne: "L \<noteq> H" "H \<noteq> L" by auto
  from len have "(7::size_t) \<le> len" by (rule less_imp_le)
  then have m: "min len kPeriod = 7" by (simp add: kPeriod_def min_absorb2)
  from len have l2: "\<not> len < 2" by (simp add: word_less_nat_alt)
  from q consider "q = 0" | "q = 1" | "q = 2" | "q = 3" | "q = 4" | "q = 5" | "q = 6" by linarith
  then show ?thesis
  proof cases
    case 1
    have b0: "buf ! 0 = L" and bk: "buf ! 3 = H"
      using pat [of 0] pat [of 3] 1 by simp_all
    have "Candidates_scan buf len L 1 = of_nat 3"
    proof (rule Candidates_scan_at [OF _ _ len])
      show "buf ! 3 \<noteq> L" using bk ne by simp
      fix n :: nat assume "1 \<le> n" and "n < 3"
      then show "buf ! n = L" using pat [of n] 1 by simp
    qed simp_all
    then show ?thesis using 1 b0 bk m l2 valid by (simp add: Candidates_def Let_def kPeriod_def word_le_nat_alt)
  next
    case 2
    have b0: "buf ! 0 = L" and bk: "buf ! 2 = H"
      using pat [of 0] pat [of 2] 2 by simp_all
    have "Candidates_scan buf len L 1 = of_nat 2"
    proof (rule Candidates_scan_at [OF _ _ len])
      show "buf ! 2 \<noteq> L" using bk ne by simp
      fix n :: nat assume "1 \<le> n" and "n < 2"
      then show "buf ! n = L" using pat [of n] 2 by simp
    qed simp_all
    then show ?thesis using 2 b0 bk m l2 valid by (simp add: Candidates_def Let_def kPeriod_def word_le_nat_alt)
  next
    case 3
    have b0: "buf ! 0 = L" and bk: "buf ! 1 = H"
      using pat [of 0] pat [of 1] 3 by simp_all
    have "Candidates_scan buf len L 1 = of_nat 1"
    proof (rule Candidates_scan_at [OF _ _ len])
      show "buf ! 1 \<noteq> L" using bk ne by simp
      fix n :: nat assume "1 \<le> n" and "n < 1"
      then show "buf ! n = L" using pat [of n] 3 by simp
    qed simp_all
    then show ?thesis using 3 b0 bk m l2 valid by (simp add: Candidates_def Let_def kPeriod_def word_le_nat_alt)
  next
    case 4
    have b0: "buf ! 0 = H" and bk: "buf ! 4 = L"
      using pat [of 0] pat [of 4] 4 by simp_all
    have "Candidates_scan buf len H 1 = of_nat 4"
    proof (rule Candidates_scan_at [OF _ _ len])
      show "buf ! 4 \<noteq> H" using bk ne by simp
      fix n :: nat assume "1 \<le> n" and "n < 4"
      then show "buf ! n = H" using pat [of n] 4 by simp
    qed simp_all
    then show ?thesis using 4 b0 bk m l2 valid by (simp add: Candidates_def Let_def kPeriod_def word_le_nat_alt)
  next
    case 5
    have b0: "buf ! 0 = H" and bk: "buf ! 3 = L"
      using pat [of 0] pat [of 3] 5 by simp_all
    have "Candidates_scan buf len H 1 = of_nat 3"
    proof (rule Candidates_scan_at [OF _ _ len])
      show "buf ! 3 \<noteq> H" using bk ne by simp
      fix n :: nat assume "1 \<le> n" and "n < 3"
      then show "buf ! n = H" using pat [of n] 5 by simp
    qed simp_all
    then show ?thesis using 5 b0 bk m l2 valid by (simp add: Candidates_def Let_def kPeriod_def word_le_nat_alt)
  next
    case 6
    have b0: "buf ! 0 = H" and bk: "buf ! 2 = L"
      using pat [of 0] pat [of 2] 6 by simp_all
    have "Candidates_scan buf len H 1 = of_nat 2"
    proof (rule Candidates_scan_at [OF _ _ len])
      show "buf ! 2 \<noteq> H" using bk ne by simp
      fix n :: nat assume "1 \<le> n" and "n < 2"
      then show "buf ! n = H" using pat [of n] 6 by simp
    qed simp_all
    then show ?thesis using 6 b0 bk m l2 valid by (simp add: Candidates_def Let_def kPeriod_def word_le_nat_alt)
  next
    case 7
    have b0: "buf ! 0 = H" and bk: "buf ! 1 = L"
      using pat [of 0] pat [of 1] 7 by simp_all
    have "Candidates_scan buf len H 1 = of_nat 1"
    proof (rule Candidates_scan_at [OF _ _ len])
      show "buf ! 1 \<noteq> H" using bk ne by simp
      fix n :: nat assume "1 \<le> n" and "n < 1"
      then show "buf ! n = H" using pat [of n] 7 by simp
    qed simp_all
    then show ?thesis using 7 b0 bk m l2 valid by (simp add: Candidates_def Let_def kPeriod_def word_le_nat_alt)
  qed
qed


lemma of_nat_mod_period: "(of_nat (unat b mod 7) :: size_t) = b mod 7"
proof -
  have "unat b mod 7 < 7" by simp
  then have "unat b mod 7 < 2 ^ 64" by simp
  then have "unat (of_nat (unat b mod 7) :: size_t) = unat b mod 7" by (simp add: unat_of_nat)
  then show ?thesis by (simp add: word_unat_eq_iff unat_mod)
qed

lemma Color_nat:
  assumes "unat b + unat p < 2 ^ 64"
  shows "Color i b p = (if (unat b + unat p) mod 7 < 3 then LowColor i else HighColor i)"
  by (simp add: Color_def ColorSelector_nat [OF assms])

lemma Color_mod_period:
  assumes "unat b + unat p < 2 ^ 64"
  shows "Color i (b mod 7) p = Color i b p"
  using ColorSelector_mod_period [OF assms] by (simp add: Color_def kPeriod_def)

lemma Paint_Identify:
  assumes id: "identity < 899" and len: "7 < len" and buf: "unat len \<le> length buf"
    and nowrap: "unat buffer_id + unat len \<le> 2 ^ 64"
  shows "Identify (Paint identity buffer_id buf len) len =
         Some \<lparr>ident_identity = identity, ident_length = len, ident_phase = buffer_id mod 7\<rparr>"
proof -
  let ?B = "Paint identity buffer_id buf len"
  let ?q = "unat buffer_id mod 7"
  from len have len7: "7 < unat len" by (simp add: word_less_nat_alt)
  have painted: "?B ! unat j = Color identity buffer_id j" if "j < len" for j
    using buf that by (rule Paint_nth)
  have small: "unat buffer_id + unat j < 2 ^ 64" if "j < len" for j
  proof -
    from that have "unat j < unat len" by (simp add: word_less_nat_alt)
    with nowrap show ?thesis by linarith
  qed
  have pat: "?B ! n = (if (?q + n) mod 7 < 3 then LowColor identity else HighColor identity)"
    if "n < 7" for n
  proof -
    from that have n64: "n < 2 ^ 64" by simp
    then have un: "unat (of_nat n :: size_t) = n" by (simp add: unat_of_nat)
    with that len7 have lt: "(of_nat n :: size_t) < len" by (simp add: word_less_nat_alt)
    have "?B ! n = Color identity buffer_id (of_nat n)" using painted [OF lt] un by simp
    also have "\<dots> = (if (unat buffer_id + n) mod 7 < 3 then LowColor identity else HighColor identity)"
      using Color_nat [OF small [OF lt]] un by simp
    also have "(unat buffer_id + n) mod 7 = (?q + n) mod 7" by (simp add: mod_add_left_eq)
    finally show ?thesis .
  qed
  have cand: "Candidates ?B len =
      Some \<lparr>cand_identity = Crt (LowColor identity) (HighColor identity), cand_phase = of_nat ?q\<rparr>"
    by (rule Candidates_pattern [OF len pat])
       (simp_all add: IsValidLowColor_LowColor IsValidHighColor_HighColor
          not_IsValidHighColor_LowColor not_IsValidLowColor_HighColor)
  have crt: "Crt (LowColor identity) (HighColor identity) = identity"
    using id by (rule Crt_LowColor_HighColor)
  have phase: "(of_nat ?q :: size_t) = buffer_id mod 7" by (rule of_nat_mod_period)
  have "ColorMatch identity (buffer_id mod 7) ?B len = len"
  proof (rule ColorMatch_all, intro allI impI)
    fix j assume "j < len"
    then show "?B ! unat j = Color identity (buffer_id mod 7) j"
      by (simp add: painted Color_mod_period [OF small])
  qed
  moreover from len have "\<not> len \<le> kPeriod" by (simp add: kPeriod_def not_le)
  ultimately show ?thesis by (simp add: Identify_def cand crt phase Let_def)
qed

text \<open>
  The bound on the buffer id in the round trip below is needed. With the buffer id
  \<open>2 ^ 64 - 1\<close> the \<open>size_t\<close> sum \<open>buffer_id + k\<close> wraps inside the buffer: eight bytes
  are painted Low, Low, Low, Low, High, High, High, High, the candidate phase is 6,
  position 0 does not match it, and there is no result. No caller comes near such an id: the
  buffer ids in use are 0 .. 502.
\<close>

lemma Paint_Identify_wrap_example:
  "Identify (Paint 0 18446744073709551615 (replicate 8 0) 8) 8 = None"
  by (simp add: Identify_def Candidates_def Candidates_scan.simps ColorMatch_def ColorMatch_loop.simps
      Paint_def Paint_loop.simps Crt_def Let_def eval_color)

text \<open>
  Claim C1 (round trip). For every identity in [0, 899), every length above 7 and every buffer
  id in a reasonable range, \<open>Identify\<close> after \<open>Paint\<close> returns the painted identity, the
  phase \<open>bufferId mod 7\<close> and the buffer length. The reasonable range is made precise as
  \<open>buffer_id + length \<le> 2 ^ 64\<close>: the \<open>size_t\<close> sum \<open>buffer_id + k\<close> does not wrap inside
  the buffer.
\<close>

theorem Paint_Identify_round_trip:
  assumes "identity < 899" and "7 < len" and "unat len \<le> length buf"
    and "unat buffer_id + unat len \<le> 2 ^ 64"
  shows "Identify (Paint identity buffer_id buf len) len =
         Some \<lparr>ident_identity = identity, ident_length = len, ident_phase = buffer_id mod 7\<rparr>"
  using assms by (rule Paint_Identify)

theorem Paint_Identify_round_trip_witness:
  "(17 :: size_t) < 899 \<and> (7 :: size_t) < 100 \<and> unat (100 :: size_t) \<le> length (replicate 100 (0 :: uint8_t))
   \<and> unat (19 :: size_t) + unat (100 :: size_t) \<le> 2 ^ 64
   \<and> Identify (Paint 17 19 (replicate 100 0) 100) 100 =
       Some \<lparr>ident_identity = 17, ident_length = 100, ident_phase = 5\<rparr>"
  using Paint_Identify_round_trip [of 17 100 "replicate 100 0" 19] by simp

section \<open>The effect of one Report and of a sequence of Reports\<close>

lemmas Report_defs = Report_def Let_def IsSquelched_def SAFELOG_def Clear_def LogSummary_def

lemma Report_total_fails: "total_fails (Report s position color error) = total_fails s + 1"
  by (simp add: Report_defs)

lemma Report_histogram:
  "histogram (Report s position color error) color =
     (if \<not> kSpewLimit \<le> total_fails s + 1 \<and> active s \<and> position \<noteq> range_end s + 1
      then 0 else histogram s color) + 1"
  by (simp add: Report_defs)

lemma Report_squelched:
  assumes "kSpewLimit \<le> total_fails s + 1"
  shows "logged (Report s position color error) = logged s"
    and "range_end (Report s position color error) = position"
    and "range_fails (Report s position color error) = range_fails s + 1"
    and "histogram (Report s position color error) = (histogram s)(color := histogram s color + 1)"
    and "active s \<Longrightarrow> range_start (Report s position color error) = range_start s"
    and "active s \<Longrightarrow> range_count (Report s position color error) = range_count s"
    and "active (Report s position color error)"
  using assms by (simp_all add: Report_defs)

lemma Report_new_range:
  assumes "\<not> kSpewLimit \<le> total_fails s + 1" and "active s" and "position \<noteq> range_end s + 1"
  shows "logged (Report s position color error) =
           logged s @ [(INFO, ''Identifying''),
                       (ERROR, ident s @ '' '' @ Summary (s\<lparr>total_fails := total_fails s + 1\<rparr>)),
                       (ERROR, ident s @ '' '' @ error)]"
    and "active (Report s position color error)"
    and "range_count (Report s position color error) = range_count s + 1"
    and "range_start (Report s position color error) = position"
    and "range_end (Report s position color error) = position"
    and "range_fails (Report s position color error) = 1"
    and "histogram (Report s position color error) = (\<lambda>k. 0)(color := 1)"
  using assms by (simp_all add: Report_defs)

lemma Report_extend:
  assumes "\<not> kSpewLimit \<le> total_fails s + 1" and "active s" and "position = range_end s + 1"
  shows "logged (Report s position color error) = logged s @ [(ERROR, ident s @ '' '' @ error)]"
    and "active (Report s position color error)"
    and "range_count (Report s position color error) = range_count s"
    and "range_start (Report s position color error) = range_start s"
    and "range_end (Report s position color error) = position"
    and "range_fails (Report s position color error) = range_fails s + 1"
    and "histogram (Report s position color error) = (histogram s)(color := histogram s color + 1)"
  using assms by (simp_all add: Report_defs)

lemma Report_first:
  assumes "\<not> kSpewLimit \<le> total_fails s + 1" and "\<not> active s"
  shows "logged (Report s position color error) = logged s @ [(ERROR, ident s @ '' '' @ error)]"
    and "active (Report s position color error)"
    and "range_count (Report s position color error) = 1"
    and "range_start (Report s position color error) = position"
    and "range_end (Report s position color error) = position"
    and "range_fails (Report s position color error) = range_fails s + 1"
    and "histogram (Report s position color error) = (histogram s)(color := histogram s color + 1)"
  using assms by (simp_all add: Report_defs)

lemma Report_const:
  "ident (Report s position color error) = ident s"
  "spray_paint (Report s position color error) = spray_paint s"
  "buffer (Report s position color error) = buffer s"
  by (simp_all add: Report_defs)

lemma Reports_append: "Reports s (xs @ ys) = Reports (Reports s xs) ys"
  by (induction s xs rule: Reports.induct) simp_all

lemma Reports_total_fails: "total_fails (Reports s rs) = total_fails s + of_nat (length rs)"
  by (induction s rs rule: Reports.induct) (simp_all add: Report_total_fails)

lemma Reports_unat_total_fails:
  assumes "unat (total_fails s) + length rs < 2 ^ 64"
  shows "unat (total_fails (Reports s rs)) = unat (total_fails s) + length rs"
proof -
  from assms have "length rs < 2 ^ 64" by linarith
  then have "unat (of_nat (length rs) :: int64_t) = length rs" by (simp add: unat_of_nat)
  with assms show ?thesis by (simp add: Reports_total_fails unat_word_ariths)
qed

lemma Reports_squelched:
  assumes "599 \<le> unat (total_fails s)" and "unat (total_fails s) + length rs < 2 ^ 64"
  shows "logged (Reports s rs) = logged s"
  using assms
proof (induction s rs rule: Reports.induct)
  case (1 s)
  show ?case by simp
next
  case (2 s position color error rs)
  from "2.prems"(2) have "unat (total_fails s) + 1 < 2 ^ 64" by simp
  then have u: "unat (total_fails s + 1) = unat (total_fails s) + 1"
    by (simp add: unat_word_ariths)
  with "2.prems"(1) have sq: "kSpewLimit \<le> total_fails s + 1"
    by (simp add: kSpewLimit_def word_le_nat_alt)
  have "logged (Reports (Report s position color error) rs) = logged (Report s position color error)"
  proof (rule "2.IH")
    show "599 \<le> unat (total_fails (Report s position color error))"
      using "2.prems"(1) u by (simp add: Report_total_fails)
    show "unat (total_fails (Report s position color error)) + length rs < 2 ^ 64"
      using "2.prems"(2) u by (simp add: Report_total_fails)
  qed
  then show ?case by (simp add: Report_squelched(1) [OF sq])
qed

section \<open>Ranges and the squelch threshold\<close>

lemma Reports_ident: "ident (Reports s rs) = ident s"
  by (induction s rs rule: Reports.induct) (simp_all add: Report_const)

lemma adjacent_reports_Suc:
  "adjacent_reports (Suc n) = adjacent_reports n @ [(of_nat n, 13, ''junk'')]"
  by (simp add: adjacent_reports_def)

lemma adjacent_run:
  assumes "n < 599"
  shows "total_fails (Reports (Summarizer_ctor i sp b) (adjacent_reports (Suc n))) = of_nat (Suc n)
       \<and> active (Reports (Summarizer_ctor i sp b) (adjacent_reports (Suc n)))
       \<and> range_start (Reports (Summarizer_ctor i sp b) (adjacent_reports (Suc n))) = 0
       \<and> range_end (Reports (Summarizer_ctor i sp b) (adjacent_reports (Suc n))) = of_nat n
       \<and> range_count (Reports (Summarizer_ctor i sp b) (adjacent_reports (Suc n))) = 1
       \<and> range_fails (Reports (Summarizer_ctor i sp b) (adjacent_reports (Suc n))) = of_nat (Suc n)
       \<and> logged (Reports (Summarizer_ctor i sp b) (adjacent_reports (Suc n)))
           = replicate (Suc n) (ERROR, i @ '' junk'')"
  using assms
proof (induction n)
  case 0
  show ?case
    by (simp add: adjacent_reports_def Summarizer_ctor_def Report_defs kSpewLimit_def word_le_nat_alt)
next
  case (Suc n)
  let ?s = "Reports (Summarizer_ctor i sp b) (adjacent_reports (Suc n))"
  from Suc have inv: "total_fails ?s = of_nat (Suc n)" "active ?s" "range_start ?s = 0"
    "range_end ?s = of_nat n" "range_count ?s = 1" "range_fails ?s = of_nat (Suc n)"
    "logged ?s = replicate (Suc n) (ERROR, i @ '' junk'')"
    by simp_all
  have id: "ident ?s = i" by (simp add: Reports_ident Summarizer_ctor_def Clear_def)
  from Suc.prems have "Suc (Suc n) < 2 ^ 64" by simp
  then have "unat (of_nat (Suc (Suc n)) :: int64_t) = Suc (Suc n)"
    by (simp only: unat_of_nat) simp
  with Suc.prems have "\<not> kSpewLimit \<le> (of_nat (Suc (Suc n)) :: int64_t)"
    by (simp only: word_le_nat_alt kSpewLimit_def) simp
  then have nsq: "\<not> kSpewLimit \<le> total_fails ?s + 1" by (simp add: inv(1) add.commute)
  have adj: "(of_nat (Suc n) :: size_t) = range_end ?s + 1" by (simp add: inv(4))
  have step: "Reports (Summarizer_ctor i sp b) (adjacent_reports (Suc (Suc n)))
              = Report ?s (of_nat (Suc n)) 13 ''junk''"
    by (simp add: adjacent_reports_Suc [of "Suc n"] Reports_append)
  note ext = Report_extend [OF nsq inv(2) adj, of 13 "''junk''"]
  let ?r = "Report ?s (of_nat (Suc n)) 13 ''junk''"
  show ?case unfolding step
  proof (intro conjI)
    show "total_fails ?r = of_nat (Suc (Suc n))"
      by (simp only: Report_total_fails inv(1)) simp
    show "active ?r" by (rule ext(2))
    show "range_start ?r = 0" by (simp only: ext(4) inv(3))
    show "range_end ?r = of_nat (Suc n)" by (rule ext(5))
    show "range_count ?r = 1" by (simp only: ext(3) inv(5))
    show "range_fails ?r = of_nat (Suc (Suc n))"
      by (simp only: ext(6) inv(6)) simp
    show "logged ?r = replicate (Suc (Suc n)) (ERROR, i @ '' junk'')"
      by (simp only: ext(1) inv(7) id) (simp add: replicate_append_same)
  qed
qed

lemma nearly_squelched_state:
  "total_fails nearly_squelched = 599" "active nearly_squelched"
  "range_start nearly_squelched = 0" "range_end nearly_squelched = 598"
  "range_count nearly_squelched = 1" "range_fails nearly_squelched = 599"
  "length (logged nearly_squelched) = 599"
  using adjacent_run [of 598 "''test''" "\<lparr>round' = 0, kid = 0, last_painted_by = 0\<rparr>" "[]"]
  by (simp_all add: nearly_squelched_def)


lemma Clear_total_fails: "total_fails (Clear s) = total_fails s"
  by (simp add: Clear_def)

lemma Finish_total_fails: "total_fails (Finish s) = total_fails s"
  by (simp add: Finish_def LogSummary_def SAFELOG_def)

lemma nearly_squelched_limit: "kSpewLimit \<le> total_fails nearly_squelched + 1"
  by (simp add: nearly_squelched_state kSpewLimit_def)

text \<open>
  Claim C3 says that a report at a position other than \<open>lastPosition + 1\<close> always closes
  the current range, however many failures have accumulated. The split is inside
  \<open>if (!IsSquelched())\<close>: the 600th report of a summarizer, at position 700 after the range
  0 .. 598, writes nothing, keeps the start of the range and its fail count, and moves the end
  of the range to 700.
\<close>

theorem Report_nonadjacent_counterexample:
  "active nearly_squelched \<and> (700 :: size_t) \<noteq> range_end nearly_squelched + 1
   \<and> logged (Report nearly_squelched 700 13 ''junk'') = logged nearly_squelched
   \<and> range_start (Report nearly_squelched 700 13 ''junk'') = 0
   \<and> range_end (Report nearly_squelched 700 13 ''junk'') = 700
   \<and> range_count (Report nearly_squelched 700 13 ''junk'') = 1
   \<and> range_fails (Report nearly_squelched 700 13 ''junk'') = 600"
  by (simp add: Report_squelched [OF nearly_squelched_limit] nearly_squelched_state)

text \<open>
  Claim C3, as amended. For a summarizer in the Active state and a report at a position
  other than \<open>lastPosition + 1\<close>: while the lifetime total, this report included, is below
  the squelch threshold, the report writes the summary of the current range, clears the
  histogram and the fail count of the range and starts a new Active range at the reported
  position, in which it is the only failure. Once the threshold is reached the report writes
  nothing and extends the current range to the reported position.
\<close>

theorem Report_nonadjacent:
  assumes "active s" and "position \<noteq> range_end s + 1"
  shows "(\<not> kSpewLimit \<le> total_fails s + 1 \<longrightarrow>
            logged (Report s position color error) =
              logged s @ [(INFO, ''Identifying''),
                          (ERROR, ident s @ '' '' @ Summary (s\<lparr>total_fails := total_fails s + 1\<rparr>)),
                          (ERROR, ident s @ '' '' @ error)]
            \<and> active (Report s position color error)
            \<and> range_count (Report s position color error) = range_count s + 1
            \<and> range_start (Report s position color error) = position
            \<and> range_end (Report s position color error) = position
            \<and> range_fails (Report s position color error) = 1
            \<and> histogram (Report s position color error) = (\<lambda>k. 0)(color := 1))
       \<and> (kSpewLimit \<le> total_fails s + 1 \<longrightarrow>
            logged (Report s position color error) = logged s
            \<and> active (Report s position color error)
            \<and> range_count (Report s position color error) = range_count s
            \<and> range_start (Report s position color error) = range_start s
            \<and> range_end (Report s position color error) = position
            \<and> range_fails (Report s position color error) = range_fails s + 1
            \<and> histogram (Report s position color error) = (histogram s)(color := histogram s color + 1))"
proof (intro conjI impI)
  assume n: "\<not> kSpewLimit \<le> total_fails s + 1"
  note new = Report_new_range [OF n assms, of color error]
  show "logged (Report s position color error) =
              logged s @ [(INFO, ''Identifying''),
                          (ERROR, ident s @ '' '' @ Summary (s\<lparr>total_fails := total_fails s + 1\<rparr>)),
                          (ERROR, ident s @ '' '' @ error)]" by (rule new(1))
  show "active (Report s position color error)" by (rule new(2))
  show "range_count (Report s position color error) = range_count s + 1" by (rule new(3))
  show "range_start (Report s position color error) = position" by (rule new(4))
  show "range_end (Report s position color error) = position" by (rule new(5))
  show "range_fails (Report s position color error) = 1" by (rule new(6))
  show "histogram (Report s position color error) = (\<lambda>k. 0)(color := 1)" by (rule new(7))
next
  assume q: "kSpewLimit \<le> total_fails s + 1"
  note sq = Report_squelched [OF q, of position color error]
  show "logged (Report s position color error) = logged s" by (rule sq(1))
  show "active (Report s position color error)" by (rule sq(7))
  show "range_count (Report s position color error) = range_count s" by (rule sq(6) [OF assms(1)])
  show "range_start (Report s position color error) = range_start s" by (rule sq(5) [OF assms(1)])
  show "range_end (Report s position color error) = position" by (rule sq(2))
  show "range_fails (Report s position color error) = range_fails s + 1" by (rule sq(3))
  show "histogram (Report s position color error) = (histogram s)(color := histogram s color + 1)"
    by (rule sq(4))
qed

theorem Report_nonadjacent_witness:
  "active (Reports (Summarizer_ctor ''test'' \<lparr>round' = 0, kid = 0, last_painted_by = 0\<rparr> [])
            (adjacent_reports 3))
   \<and> (9 :: size_t) \<noteq> range_end (Reports (Summarizer_ctor ''test''
            \<lparr>round' = 0, kid = 0, last_painted_by = 0\<rparr> []) (adjacent_reports 3)) + 1
   \<and> \<not> kSpewLimit \<le> total_fails (Reports (Summarizer_ctor ''test''
            \<lparr>round' = 0, kid = 0, last_painted_by = 0\<rparr> []) (adjacent_reports 3)) + 1
   \<and> range_count (Report (Reports (Summarizer_ctor ''test''
            \<lparr>round' = 0, kid = 0, last_painted_by = 0\<rparr> []) (adjacent_reports 3)) 9 13 ''junk'') = 2
   \<and> range_start (Report (Reports (Summarizer_ctor ''test''
            \<lparr>round' = 0, kid = 0, last_painted_by = 0\<rparr> []) (adjacent_reports 3)) 9 13 ''junk'') = 9
   \<and> range_end (Report (Reports (Summarizer_ctor ''test''
            \<lparr>round' = 0, kid = 0, last_painted_by = 0\<rparr> []) (adjacent_reports 3)) 9 13 ''junk'') = 9
   \<and> range_fails (Report (Reports (Summarizer_ctor ''test''
            \<lparr>round' = 0, kid = 0, last_painted_by = 0\<rparr> []) (adjacent_reports 3)) 9 13 ''junk'') = 1
   \<and> active nearly_squelched \<and> (700 :: size_t) \<noteq> range_end nearly_squelched + 1
   \<and> kSpewLimit \<le> total_fails nearly_squelched + 1
   \<and> logged (Report nearly_squelched 700 13 ''junk'') = logged nearly_squelched
   \<and> range_start (Report nearly_squelched 700 13 ''junk'') = range_start nearly_squelched"
proof -
  let ?s = "Reports (Summarizer_ctor ''test'' \<lparr>round' = 0, kid = 0, last_painted_by = 0\<rparr> [])
              (adjacent_reports 3)"
  from adjacent_run [of 2 "''test''" "\<lparr>round' = 0, kid = 0, last_painted_by = 0\<rparr>" "[]"]
  have st: "total_fails ?s = 3" "active ?s" "range_end ?s = 2" "range_count ?s = 1"
    by (simp_all add: numeral_3_eq_3)
  have a1: "active ?s" by (rule st(2))
  have a2: "(9 :: size_t) \<noteq> range_end ?s + 1" by (simp add: st(3))
  have a3: "\<not> kSpewLimit \<le> total_fails ?s + 1" by (simp add: st(1) kSpewLimit_def)
  have b1: "active nearly_squelched" by (rule nearly_squelched_state(2))
  have b2: "(700 :: size_t) \<noteq> range_end nearly_squelched + 1"
    by (simp add: nearly_squelched_state)
  have b3: "kSpewLimit \<le> total_fails nearly_squelched + 1" by (rule nearly_squelched_limit)
  from Report_nonadjacent [OF a1 a2, of 13 "''junk''"] a3
  have "range_count (Report ?s 9 13 ''junk'') = 2 \<and> range_start (Report ?s 9 13 ''junk'') = 9
        \<and> range_end (Report ?s 9 13 ''junk'') = 9 \<and> range_fails (Report ?s 9 13 ''junk'') = 1"
    by (simp add: st(4))
  moreover from Report_nonadjacent [OF b1 b2, of 13 "''junk''"] b3
  have "logged (Report nearly_squelched 700 13 ''junk'') = logged nearly_squelched
        \<and> range_start (Report nearly_squelched 700 13 ''junk'') = range_start nearly_squelched"
    by simp
  ultimately show ?thesis using a1 a2 a3 b1 b2 b3 by blast
qed

text \<open>
  Claim C4 (squelch law). Every report increments the lifetime total-fail counter and counts
  the observed color in the histogram of the range it belongs to, squelched or not. A report
  that brings the counter to the squelch threshold or finds it there writes nothing to
  the log, and neither does any later report; the counter keeps counting and nothing resets
  it (\<open>Clear\<close> and \<open>Finish\<close> leave it alone). The counter is an \<open>int64_t\<close>: the statements
  about sequences are for fewer than \<open>2 ^ 63\<close> reports, the range in which incrementing it
  is defined.
\<close>

theorem Report_squelch_law:
  "total_fails (Report s position color error) = total_fails s + 1
   \<and> histogram (Report s position color error) color =
       (if \<not> kSpewLimit \<le> total_fails s + 1 \<and> active s \<and> position \<noteq> range_end s + 1
        then 0 else histogram s color) + 1
   \<and> (kSpewLimit \<le> total_fails s + 1 \<longrightarrow> logged (Report s position color error) = logged s)
   \<and> (unat (total_fails s) + length rs < 2 ^ 63 \<longrightarrow>
        unat (total_fails (Reports s rs)) = unat (total_fails s) + length rs)
   \<and> (599 \<le> unat (total_fails s) \<and> unat (total_fails s) + length rs < 2 ^ 63 \<longrightarrow>
        logged (Reports s rs) = logged s)
   \<and> total_fails (Clear s) = total_fails s
   \<and> total_fails (Finish s) = total_fails s"
proof (intro conjI impI)
  show "total_fails (Report s position color error) = total_fails s + 1"
    by (rule Report_total_fails)
  show "histogram (Report s position color error) color =
       (if \<not> kSpewLimit \<le> total_fails s + 1 \<and> active s \<and> position \<noteq> range_end s + 1
        then 0 else histogram s color) + 1"
    by (rule Report_histogram)
  show "total_fails (Clear s) = total_fails s" by (rule Clear_total_fails)
  show "total_fails (Finish s) = total_fails s" by (rule Finish_total_fails)
next
  assume "kSpewLimit \<le> total_fails s + 1"
  then show "logged (Report s position color error) = logged s" by (rule Report_squelched(1))
next
  assume "unat (total_fails s) + length rs < 2 ^ 63"
  then have "unat (total_fails s) + length rs < 2 ^ 64" by simp
  then show "unat (total_fails (Reports s rs)) = unat (total_fails s) + length rs"
    by (rule Reports_unat_total_fails)
next
  assume a: "599 \<le> unat (total_fails s) \<and> unat (total_fails s) + length rs < 2 ^ 63"
  then have "unat (total_fails s) + length rs < 2 ^ 64" by simp
  with a show "logged (Reports s rs) = logged s" by (intro Reports_squelched) simp_all
qed

theorem Report_squelch_law_witness:
  "kSpewLimit \<le> total_fails nearly_squelched + 1
   \<and> logged (Report nearly_squelched 700 13 ''junk'') = logged nearly_squelched
   \<and> unat (total_fails nearly_squelched) + length (adjacent_reports 3) < 2 ^ 63
   \<and> unat (total_fails (Reports nearly_squelched (adjacent_reports 3))) = 602
   \<and> 599 \<le> unat (total_fails nearly_squelched)
   \<and> logged (Reports nearly_squelched (adjacent_reports 3)) = logged nearly_squelched"
proof -
  have h1: "kSpewLimit \<le> total_fails nearly_squelched + 1" by (rule nearly_squelched_limit)
  have h2: "unat (total_fails nearly_squelched) + length (adjacent_reports 3) < 2 ^ 63"
    by (simp add: nearly_squelched_state adjacent_reports_def)
  have h3: "599 \<le> unat (total_fails nearly_squelched)" by (simp add: nearly_squelched_state)
  from Report_squelch_law [of nearly_squelched 700 13 "''junk''" "adjacent_reports 3"] h1 h2 h3
  have "logged (Report nearly_squelched 700 13 ''junk'') = logged nearly_squelched
        \<and> unat (total_fails (Reports nearly_squelched (adjacent_reports 3)))
            = unat (total_fails nearly_squelched) + length (adjacent_reports 3)
        \<and> logged (Reports nearly_squelched (adjacent_reports 3)) = logged nearly_squelched"
    by blast
  then show ?thesis using h1 h2 h3
    by (simp add: nearly_squelched_state adjacent_reports_def)
qed

section \<open>The scan of ColorIsRight\<close>

lemma ColorIsRight_loop_eq:
  "ColorIsRight_loop sp buffer_id buf buffer_size k ok s =
     (ok \<and> filter (\<lambda>k. buf ! unat k \<noteq> Color (scast (last_painted_by sp)) buffer_id k)
              (map of_nat [unat k ..< unat buffer_size]) = [],
      Reports s (map (\<lambda>k. (k, buf ! unat k, ErrorMessage sp (buf ! unat k) k))
                  (filter (\<lambda>k. buf ! unat k \<noteq> Color (scast (last_painted_by sp)) buffer_id k)
                     (map of_nat [unat k ..< unat buffer_size]))))"
proof (induction sp buffer_id buf buffer_size k ok s rule: ColorIsRight_loop.induct)
  case (1 sp buffer_id buf buffer_size k ok summarizer)
  show ?case
  proof (cases "k < buffer_size")
    case False
    then have "unat buffer_size \<le> unat k" by (simp add: word_less_nat_alt not_less)
    then have e: "[unat k ..< unat buffer_size] = []" by simp
    from False show ?thesis
      by (simp add: ColorIsRight_loop.simps [of sp buffer_id buf buffer_size k ok summarizer] e)
  next
    case True
    then have lt: "unat k < unat buffer_size" by (simp add: word_less_nat_alt)
    have step: "unat (k + 1) = Suc (unat k)" by (rule unat_inc [OF True])
    have upt: "[unat k ..< unat buffer_size] = unat k # [unat (k + 1) ..< unat buffer_size]"
      using lt step by (simp add: upt_conv_Cons)
    show ?thesis
    proof (cases "buf ! unat k \<noteq> Color (scast (last_painted_by sp)) buffer_id k")
      case bad: True
      from "1.IH"(1) [OF True refl bad] bad True show ?thesis
        by (simp add: ColorIsRight_loop.simps [of sp buffer_id buf buffer_size k ok summarizer] upt Let_def)
    next
      case good: False
      from "1.IH"(2) [OF True refl good] good True show ?thesis
        by (simp add: ColorIsRight_loop.simps [of sp buffer_id buf buffer_size k ok summarizer] upt Let_def)
    qed
  qed
qed

lemma ColorIsRight_eq:
  "ColorIsRight sp buffer_id buf buffer_size ident0 =
     (mismatches sp buffer_id buf buffer_size = [],
      Finish (Reports (Summarizer_ctor (Ident sp ident0 buffer_id) sp buf)
                (mismatch_reports sp buffer_id buf buffer_size)))"
  by (simp add: ColorIsRight_def ColorIsRight_loop_eq mismatches_def mismatch_reports_def)

lemma unat_of_nat_less:
  assumes "n < unat (w :: size_t)"
  shows "unat (of_nat n :: size_t) = n"
proof -
  have "unat w < 2 ^ 64" using unsigned_less [of w] by simp
  with assms have "n < 2 ^ 64" by linarith
  then show ?thesis by (simp add: unat_of_nat)
qed

lemma mismatches_iff:
  "k \<in> set (mismatches sp buffer_id buf buffer_size) \<longleftrightarrow>
     k < buffer_size \<and> buf ! unat k \<noteq> Color (scast (last_painted_by sp)) buffer_id k"
proof -
  have "k \<in> set (map of_nat [0 ..< unat buffer_size]) \<longleftrightarrow> k < buffer_size"
  proof
    assume "k \<in> set (map of_nat [0 ..< unat buffer_size])"
    then obtain n where n: "n < unat buffer_size" and k: "k = of_nat n" by auto
    from unat_of_nat_less [OF n] n k show "k < buffer_size" by (simp add: word_less_nat_alt)
  next
    assume "k < buffer_size"
    then have "unat k \<in> set [0 ..< unat buffer_size]" by (simp add: word_less_nat_alt)
    then have "of_nat (unat k) \<in> (of_nat :: nat \<Rightarrow> size_t) ` set [0 ..< unat buffer_size]"
      by (rule imageI)
    then show "k \<in> set (map of_nat [0 ..< unat buffer_size])" by simp
  qed
  then show ?thesis by (simp add: mismatches_def)
qed

lemma mismatches_empty_iff:
  "mismatches sp buffer_id buf buffer_size = [] \<longleftrightarrow>
     (\<forall>k. k < buffer_size \<longrightarrow> buf ! unat k = Color (scast (last_painted_by sp)) buffer_id k)"
proof -
  have "mismatches sp buffer_id buf buffer_size = [] \<longleftrightarrow>
        (\<forall>k. k \<notin> set (mismatches sp buffer_id buf buffer_size))"
    by (simp add: set_empty [symmetric] del: set_empty)  
  then show ?thesis by (auto simp: mismatches_iff)
qed

lemma Reports_Finish_total_fails:
  "total_fails (Finish (Reports s rs)) = total_fails s + of_nat (length rs)"
  by (simp add: Finish_total_fails Reports_total_fails)


lemma mismatches_ascending: "sorted_wrt (<) (mismatches sp buffer_id buf buffer_size)"
proof -
  have "sorted_wrt (\<lambda>a b. (of_nat a :: size_t) < of_nat b) [0 ..< unat buffer_size]"
  proof (rule sorted_wrt_mono_rel [of _ "(<)"])
    fix a b :: nat
    assume "a \<in> set [0 ..< unat buffer_size]" and "b \<in> set [0 ..< unat buffer_size]" and "a < b"
    then have "a < unat buffer_size" and "b < unat buffer_size" and "a < b" by simp_all
    then show "(of_nat a :: size_t) < of_nat b"
      by (simp add: word_less_nat_alt unat_of_nat_less [of a buffer_size]
          unat_of_nat_less [of b buffer_size])
  qed simp
  then have "sorted_wrt (<) (map (of_nat :: nat \<Rightarrow> size_t) [0 ..< unat buffer_size])"
    by (simp add: sorted_wrt_map)
  then show ?thesis unfolding mismatches_def by (rule sorted_wrt_filter)
qed

text \<open>
  Claim C6. \<open>ColorIsRight\<close> compares the byte at every position from 0 to
  \<open>buffer_size - 1\<close> with \<open>Color (last_painted_by_, buffer_id, position)\<close>, without leaving
  the loop early: what it reports to its summarizer is exactly the list of mismatching
  positions, each once and in ascending order, each with its byte and error message; the
  summarizer is finished afterwards. The verdict is true if and only if no position
  mismatched.
\<close>

theorem ColorIsRight_complete_scan:
  "ColorIsRight sp buffer_id buf buffer_size ident0 =
     (mismatches sp buffer_id buf buffer_size = [],
      Finish (Reports (Summarizer_ctor (Ident sp ident0 buffer_id) sp buf)
                (mismatch_reports sp buffer_id buf buffer_size)))
   \<and> (k \<in> set (mismatches sp buffer_id buf buffer_size) \<longleftrightarrow>
        k < buffer_size \<and> buf ! unat k \<noteq> Color (scast (last_painted_by sp)) buffer_id k)
   \<and> sorted_wrt (<) (mismatches sp buffer_id buf buffer_size)
   \<and> (fst (ColorIsRight sp buffer_id buf buffer_size ident0) \<longleftrightarrow>
        (\<forall>j. j < buffer_size \<longrightarrow> buf ! unat j = Color (scast (last_painted_by sp)) buffer_id j))
   \<and> total_fails (snd (ColorIsRight sp buffer_id buf buffer_size ident0)) =
        of_nat (length (mismatches sp buffer_id buf buffer_size))"
proof (intro conjI)
  show "ColorIsRight sp buffer_id buf buffer_size ident0 =
     (mismatches sp buffer_id buf buffer_size = [],
      Finish (Reports (Summarizer_ctor (Ident sp ident0 buffer_id) sp buf)
                (mismatch_reports sp buffer_id buf buffer_size)))"
    by (rule ColorIsRight_eq)
  show "k \<in> set (mismatches sp buffer_id buf buffer_size) \<longleftrightarrow>
        k < buffer_size \<and> buf ! unat k \<noteq> Color (scast (last_painted_by sp)) buffer_id k"
    by (rule mismatches_iff)
  show "sorted_wrt (<) (mismatches sp buffer_id buf buffer_size)"
    by (rule mismatches_ascending)
  show "fst (ColorIsRight sp buffer_id buf buffer_size ident0) \<longleftrightarrow>
        (\<forall>j. j < buffer_size \<longrightarrow> buf ! unat j = Color (scast (last_painted_by sp)) buffer_id j)"
    by (simp add: ColorIsRight_eq mismatches_empty_iff)
  show "total_fails (snd (ColorIsRight sp buffer_id buf buffer_size ident0)) =
        of_nat (length (mismatches sp buffer_id buf buffer_size))"
    by (simp add: ColorIsRight_eq Reports_Finish_total_fails mismatch_reports_def
        Summarizer_ctor_def Clear_def)
qed

theorem ColorIsRight_complete_scan_witness:
  "fst (ColorIsRight \<lparr>round' = 0, kid = 0, last_painted_by = 0\<rparr> 2
          (Paint 0 2 (replicate 20 0) 20) 20 ''Check'')
   \<and> \<not> fst (ColorIsRight \<lparr>round' = 0, kid = 0, last_painted_by = 0\<rparr> 2
          ((Paint 0 2 (replicate 20 0) 20)[5 := 7]) 20 ''Check'')
   \<and> 5 \<in> set (mismatches \<lparr>round' = 0, kid = 0, last_painted_by = 0\<rparr> 2
          ((Paint 0 2 (replicate 20 0) 20)[5 := 7]) 20)"
proof -
  let ?sp = "\<lparr>round' = 0, kid = 0, last_painted_by = 0\<rparr>"
  let ?B = "Paint 0 2 (replicate 20 0) 20"
  have ok: "\<forall>j :: size_t. j < 20 \<longrightarrow> ?B ! unat j = Color (scast (last_painted_by ?sp)) 2 j"
    by (simp add: Paint_nth)
  have "(5 :: size_t) < 20" by simp
  moreover have "?B[5 := 7] ! unat (5 :: size_t) \<noteq> Color (scast (last_painted_by ?sp)) 2 5"
    by (simp add: Paint_length eval_color)
  ultimately have bad: "(5 :: size_t) < 20
      \<and> ?B[5 := 7] ! unat (5 :: size_t) \<noteq> Color (scast (last_painted_by ?sp)) 2 5" by simp
  then have nok: "\<not> (\<forall>j :: size_t. j < 20 \<longrightarrow>
                ?B[5 := 7] ! unat j = Color (scast (last_painted_by ?sp)) 2 j)" by blast
  from ColorIsRight_complete_scan [of ?sp 2 ?B 20 "''Check''"] ok
  have "fst (ColorIsRight ?sp 2 ?B 20 ''Check'')" by blast
  moreover from ColorIsRight_complete_scan [of ?sp 2 "?B[5 := 7]" 20 "''Check''" 5] nok bad
  have "\<not> fst (ColorIsRight ?sp 2 (?B[5 := 7]) 20 ''Check'')
        \<and> 5 \<in> set (mismatches ?sp 2 (?B[5 := 7]) 20)" by blast
  ultimately show ?thesis by blast
qed

section \<open>One corrupted byte\<close>

lemma filter_single:
  assumes "p < N" and "\<And>n. n < N \<Longrightarrow> P (f n) \<longleftrightarrow> n = p"
  shows "filter P (map f [0 ..< N]) = [f p]"
proof -
  from assms(1) have split: "[0 ..< N] = [0 ..< p] @ p # [Suc p ..< N]"
    by (metis less_imp_le_nat upt_add_eq_append upt_conv_Cons add_0 le_add_diff_inverse zero_le)
  have a: "filter P (map f [0 ..< p]) = []"
    using assms by (auto simp: filter_empty_conv)
  have b: "filter P (map f [Suc p ..< N]) = []"
    using assms by (auto simp: filter_empty_conv)
  have c: "P (f p)" using assms by simp
  show ?thesis unfolding split using a b c by simp
qed

lemma Summary_logged: "Summary (s\<lparr>logged := l\<rparr>) = Summary s"
  unfolding Summary_def IsSquelched_def by (cases s) (simp only: Summarizer.simps)

lemma Finish_active:
  assumes "active s"
  shows "Finish s = s\<lparr>logged := logged s @ [(INFO, ''Identifying''), (ERROR, ident s @ '' '' @ Summary s)]\<rparr>"
  using assms by (simp add: Finish_def LogSummary_def SAFELOG_def Summary_logged)

lemma tampered_mismatches:
  assumes len: "unat buffer_size \<le> length buf" and p: "p < buffer_size"
    and c: "c \<noteq> Color (scast (last_painted_by sp)) buffer_id p"
  shows "mismatches sp buffer_id
           ((Paint (scast (last_painted_by sp)) buffer_id buf buffer_size)[unat p := c]) buffer_size = [p]"
proof -
  let ?lp = "scast (last_painted_by sp) :: size_t"
  let ?B = "Paint ?lp buffer_id buf buffer_size"
  from p have lt: "unat p < unat buffer_size" by (simp add: word_less_nat_alt)
  with len have inb: "unat p < length ?B" by (simp add: Paint_length)
  have "filter (\<lambda>k. ?B[unat p := c] ! unat k \<noteq> Color ?lp buffer_id k)
          (map of_nat [0 ..< unat buffer_size]) = [of_nat (unat p)]"
  proof (rule filter_single [OF lt])
    fix n assume n: "n < unat buffer_size"
    have un: "unat (of_nat n :: size_t) = n" by (rule unat_of_nat_less [OF n])
    with n have nlt: "(of_nat n :: size_t) < buffer_size" by (simp add: word_less_nat_alt)
    show "?B[unat p := c] ! unat (of_nat n :: size_t) \<noteq> Color ?lp buffer_id (of_nat n) \<longleftrightarrow> n = unat p"
    proof (cases "n = unat p")
      case True
      then have "(of_nat n :: size_t) = p" by simp
      with True inb c un show ?thesis by simp
    next
      case False
      have "?B ! unat (of_nat n :: size_t) = Color ?lp buffer_id (of_nat n)"
        using len nlt by (rule Paint_nth)
      with False un show ?thesis by simp
    qed
  qed
  then show ?thesis by (simp add: mismatches_def)
qed

lemma single_report:
  fixes i :: string and sp :: SprayPaint and b :: "uint8_t list" and p :: size_t
    and c :: uint8_t and e :: string
  defines "s \<equiv> Finish (Reports (Summarizer_ctor i sp b) [(p, c, e)])"
  shows "total_fails s = 1 \<and> active s \<and> range_count s = 1 \<and> range_start s = p \<and> range_end s = p
       \<and> range_fails s = 1 \<and> histogram s = (\<lambda>k. 0)(c := 1)
       \<and> logged s = [(ERROR, i @ '' '' @ e), (INFO, ''Identifying''), (ERROR, i @ '' '' @ Summary s)]"
proof -
  let ?c = "Summarizer_ctor i sp b"
  have c0: "\<not> kSpewLimit \<le> total_fails ?c + 1" "\<not> active ?c" "logged ?c = []" "ident ?c = i"
    "range_fails ?c = 0" "histogram ?c = (\<lambda>k. 0)" "total_fails ?c = 0"
    by (simp_all add: Summarizer_ctor_def Clear_def kSpewLimit_def word_le_nat_alt)
  let ?r = "Report ?c p c e"
  note f = Report_first [OF c0(1,2), of p c e]
  have act: "active ?r" by (rule f(2))
  have s: "s = ?r\<lparr>logged := logged ?r @ [(INFO, ''Identifying''), (ERROR, ident ?r @ '' '' @ Summary ?r)]\<rparr>"
    unfolding s_def by (simp add: Finish_active [OF act])
  have sum: "Summary s = Summary ?r" unfolding s by (rule Summary_logged)
  show ?thesis unfolding sum unfolding s
    by (simp add: f c0 Report_total_fails Report_const)
qed

lemma concat_single:
  assumes "p < N" and "\<And>n. n < N \<Longrightarrow> n \<noteq> p \<Longrightarrow> g n = []"
  shows "concat (map g [0 ..< N]) = g p"
proof -
  from assms(1) have split: "[0 ..< N] = [0 ..< p] @ p # [Suc p ..< N]"
    by (metis less_imp_le_nat upt_add_eq_append upt_conv_Cons add_0 le_add_diff_inverse zero_le)
  have a: "concat (map g [0 ..< p]) = []" using assms by simp
  have b: "concat (map g [Suc p ..< N]) = []" using assms by simp
  show ?thesis unfolding split
    by (simp only: map_append concat_append list.map concat.simps a b append_Nil append_Nil2)
qed

lemma byte_of_nat_eq:
  assumes "n < 256"
  shows "(of_nat n :: uint8_t) = c \<longleftrightarrow> n = unat c"
proof -
  from assms have "unat (of_nat n :: uint8_t) = n" by (simp add: unat_of_nat)
  then show ?thesis by (auto simp: word_unat_eq_iff)
qed

lemma histogram_lines_single:
  "concat (map (\<lambda>k. if ((\<lambda>k. 0)(c := 1 :: int64_t)) (of_nat k :: uint8_t) \<noteq> 0
                       then [F (of_nat k :: uint8_t)] else [])
             [0 ..< 256]) = [F c]"
proof -
  have "unat c < 256" using unsigned_less [of c] by simp
  then have "concat (map (\<lambda>k. if ((\<lambda>k. 0)(c := 1 :: int64_t)) (of_nat k :: uint8_t) \<noteq> 0
                       then [F (of_nat k :: uint8_t)] else [])
             [0 ..< 256])
        = (if ((\<lambda>k. 0)(c := 1 :: int64_t)) (of_nat (unat c) :: uint8_t) \<noteq> 0
                       then [F (of_nat (unat c) :: uint8_t)] else [])"
    by (rule concat_single) (simp add: byte_of_nat_eq)
  then show ?thesis by simp
qed

lemma Summary_single:
  assumes "active s" and "range_count s = 1" and "range_start s = p" and "range_end s = p"
    and "range_fails s = 1" and "total_fails s = 1" and "histogram s = (\<lambda>k. 0)(c := 1)"
  shows "Summary s =
           ''Range: 1 Range start: '' @ dec_unsigned p @ '' Range end: '' @ dec_unsigned p
           @ '' Length: 1 Range fails: 1  Colors:'' @ [CHR 0x0A]
           @ ''  '' @ SprayPaint_CrackColor (spray_paint s) c @ '':         1'' @ [CHR 0x0A]
           @ ''Identity indeterminate''"
proof -
  have one: "dec_unsigned (1 :: size_t) = ''1''" by (simp add: dec_unsigned_def)
  have sone: "dec_signed (1 :: int64_t) = ''1''" by (simp add: dec_signed_def)
  have pad: "pad_left 9 ''1'' = ''        1''" by (simp add: pad_left_def eval_nat_numeral)
  have nsq: "\<not> IsSquelched s" using assms(6) by (simp add: IsSquelched_def kSpewLimit_def word_le_nat_alt)
  have idf: "Identify (drop (unat p) (buffer s)) 1 = None"
    by (simp add: Identify_def Candidates_short)
  have hist: "concat (map (\<lambda>k. if histogram s (of_nat k) \<noteq> 0
                      then [''  '' @ SprayPaint_CrackColor (spray_paint s) (of_nat k)
                            @ '': '' @ pad_left 9 (dec_signed (histogram s (of_nat k)))]
                      else []) [0 ..< 256])
              = [''  '' @ SprayPaint_CrackColor (spray_paint s) c @ '': '' @ pad_left 9 (dec_signed (histogram s c))]"
    unfolding assms(7)
    by (rule histogram_lines_single
        [of c "\<lambda>k. ''  '' @ SprayPaint_CrackColor (spray_paint s) k @ '': ''
                   @ pad_left 9 (dec_signed (((\<lambda>k. 0)(c := 1 :: int64_t)) k))"])
  show ?thesis
    unfolding Summary_def Let_def hist
    by (simp add: assms(1-6) nsq idf one) (simp add: assms(7) sone pad)
qed


lemma single_report_text:
  fixes i :: string and sp :: SprayPaint and b :: "uint8_t list" and p :: size_t
    and c :: uint8_t and e :: string
  defines "s \<equiv> Finish (Reports (Summarizer_ctor i sp b) [(p, c, e)])"
  shows "total_fails s = 1 \<and> active s \<and> range_count s = 1 \<and> range_start s = p \<and> range_end s = p
       \<and> range_fails s = 1 \<and> histogram s = (\<lambda>k. 0)(c := 1)
       \<and> logged s =
            [(ERROR, i @ '' '' @ e),
             (INFO, ''Identifying''),
             (ERROR, i @ '' Range: 1 Range start: '' @ dec_unsigned p @ '' Range end: '' @ dec_unsigned p
                     @ '' Length: 1 Range fails: 1  Colors:'' @ [CHR 0x0A]
                     @ ''  '' @ SprayPaint_CrackColor sp c @ '':         1'' @ [CHR 0x0A]
                     @ ''Identity indeterminate'')]"
proof -
  from single_report [of i sp b p c e]
  have f: "total_fails s = 1" "active s" "range_count s = 1" "range_start s = p" "range_end s = p"
    "range_fails s = 1" "histogram s = (\<lambda>k. 0)(c := 1)"
    and l: "logged s = [(ERROR, i @ '' '' @ e), (INFO, ''Identifying''), (ERROR, i @ '' '' @ Summary s)]"
    unfolding s_def by simp_all
  have sp: "spray_paint s = sp"
    unfolding s_def
    by (simp add: Finish_def LogSummary_def SAFELOG_def Report_const Summarizer_ctor_def Clear_def)
  have "Summary s =
           ''Range: 1 Range start: '' @ dec_unsigned p @ '' Range end: '' @ dec_unsigned p
           @ '' Length: 1 Range fails: 1  Colors:'' @ [CHR 0x0A]
           @ ''  '' @ SprayPaint_CrackColor (spray_paint s) c @ '':         1'' @ [CHR 0x0A]
           @ ''Identity indeterminate''"
    using f(2,3,4,5,6,1,7) by (rule Summary_single)
  with f l sp show ?thesis by simp
qed

text \<open>
  Claim C9 (tamper localization). In a buffer painted for the scan's identity and buffer
  id, replace the byte at one position \<open>p\<close> by any byte other than the expected color.
  The scan then fails, \<open>p\<close> is the only mismatching position and the only one reported, and
  the summarizer ends with exactly one range, which starts and ends at \<open>p\<close> and counts one
  failure. What the scan writes is the detail line of position \<open>p\<close> and the summary of
  that one range: range 1, start \<open>p\<close>, end \<open>p\<close>, length 1, one failure, the one observed
  color counted once, and an indeterminate identity, since one byte identifies no owner.
\<close>

theorem tamper_localization:
  assumes "unat buffer_size \<le> length buf" and "p < buffer_size"
    and "c \<noteq> Color (scast (last_painted_by sp)) buffer_id p"
  shows "let B = (Paint (scast (last_painted_by sp)) buffer_id buf buffer_size)[unat p := c];
             r = ColorIsRight sp buffer_id B buffer_size ident0
         in \<not> fst r \<and> mismatches sp buffer_id B buffer_size = [p]
            \<and> total_fails (snd r) = 1 \<and> active (snd r) \<and> range_count (snd r) = 1
            \<and> range_start (snd r) = p \<and> range_end (snd r) = p \<and> range_fails (snd r) = 1
            \<and> histogram (snd r) = (\<lambda>k. 0)(c := 1)
            \<and> logged (snd r) =
                 [(ERROR, Ident sp ident0 buffer_id @ '' BadColor: '' @ SprayPaint_CrackColor sp c
                          @ '' Position: '' @ dec_unsigned p),
                  (INFO, ''Identifying''),
                  (ERROR, Ident sp ident0 buffer_id
                          @ '' Range: 1 Range start: '' @ dec_unsigned p
                          @ '' Range end: '' @ dec_unsigned p
                          @ '' Length: 1 Range fails: 1  Colors:'' @ [CHR 0x0A]
                          @ ''  '' @ SprayPaint_CrackColor sp c @ '':         1'' @ [CHR 0x0A]
                          @ ''Identity indeterminate'')]"
proof -
  let ?B = "(Paint (scast (last_painted_by sp)) buffer_id buf buffer_size)[unat p := c]"
  have mm: "mismatches sp buffer_id ?B buffer_size = [p]"
    using assms by (rule tampered_mismatches)
  from assms(1,2) have "unat p < length (Paint (scast (last_painted_by sp)) buffer_id buf buffer_size)"
    by (simp add: Paint_length word_less_nat_alt)
  then have at_p: "?B ! unat p = c" by simp
  have r: "ColorIsRight sp buffer_id ?B buffer_size ident0 =
             (False, Finish (Reports (Summarizer_ctor (Ident sp ident0 buffer_id) sp ?B)
                               [(p, c, ErrorMessage sp c p)]))"
    by (simp add: ColorIsRight_eq mismatch_reports_def mm at_p)
  from single_report_text [of "Ident sp ident0 buffer_id" sp ?B p c "ErrorMessage sp c p"]
  show ?thesis unfolding Let_def r fst_conv snd_conv using mm by (simp add: ErrorMessage_def)
qed

theorem tamper_localization_witness:
  "unat (20 :: size_t) \<le> length (replicate 20 (0 :: uint8_t)) \<and> (5 :: size_t) < 20
   \<and> (7 :: uint8_t) \<noteq> Color (scast (last_painted_by \<lparr>round' = 0, kid = 3, last_painted_by = 3\<rparr>)) 2 5
   \<and> \<not> fst (ColorIsRight \<lparr>round' = 0, kid = 3, last_painted_by = 3\<rparr> 2
              ((Paint 3 2 (replicate 20 0) 20)[5 := 7]) 20 ''Check'')
   \<and> mismatches \<lparr>round' = 0, kid = 3, last_painted_by = 3\<rparr> 2
        ((Paint 3 2 (replicate 20 0) 20)[5 := 7]) 20 = [5]
   \<and> range_count (snd (ColorIsRight \<lparr>round' = 0, kid = 3, last_painted_by = 3\<rparr> 2
              ((Paint 3 2 (replicate 20 0) 20)[5 := 7]) 20 ''Check'')) = 1
   \<and> range_start (snd (ColorIsRight \<lparr>round' = 0, kid = 3, last_painted_by = 3\<rparr> 2
              ((Paint 3 2 (replicate 20 0) 20)[5 := 7]) 20 ''Check'')) = 5
   \<and> range_end (snd (ColorIsRight \<lparr>round' = 0, kid = 3, last_painted_by = 3\<rparr> 2
              ((Paint 3 2 (replicate 20 0) 20)[5 := 7]) 20 ''Check'')) = 5
   \<and> total_fails (snd (ColorIsRight \<lparr>round' = 0, kid = 3, last_painted_by = 3\<rparr> 2
              ((Paint 3 2 (replicate 20 0) 20)[5 := 7]) 20 ''Check'')) = 1
   \<and> logged (snd (ColorIsRight \<lparr>round' = 0, kid = 3, last_painted_by = 3\<rparr> 2
              ((Paint 3 2 (replicate 20 0) 20)[5 := 7]) 20 ''Check'')) =
        [(ERROR, ''Round: 0 Kid: 3 Buffer: 2 Check BadColor: 7 Garbage Position: 5''),
         (INFO, ''Identifying''),
         (ERROR, ''Round: 0 Kid: 3 Buffer: 2 Check Range: 1 Range start: 5 Range end: 5 Length: 1 Range fails: 1  Colors:''
                 @ [CHR 0x0A] @ ''  7 Garbage:         1'' @ [CHR 0x0A] @ ''Identity indeterminate'')]"
proof -
  let ?sp = "\<lparr>round' = 0, kid = 3, last_painted_by = 3\<rparr>"
  have h1: "unat (20 :: size_t) \<le> length (replicate 20 (0 :: uint8_t))" by simp
  have h2: "(5 :: size_t) < 20" by simp
  have h3: "(7 :: uint8_t) \<noteq> Color (scast (last_painted_by ?sp)) 2 5" by (simp add: eval_color)
  have t1: "Ident ?sp ''Check'' 2 = ''Round: 0 Kid: 3 Buffer: 2 Check''"
    by (simp add: Ident_def dec_signed_def dec_unsigned_def)
  have t2: "SprayPaint_CrackColor ?sp 7 = ''7 Garbage''"
    by (simp add: SprayPaint_CrackColor_def CrackColor_def dec_unsigned_def eval_color)
  have t3: "dec_unsigned (5 :: size_t) = ''5''" by (simp add: dec_unsigned_def)
  from tamper_localization [OF h1 h2 h3, of "''Check''"] h1 h2 h3
  show ?thesis by (simp add: Let_def t1 t2 t3)
qed

section \<open>Examples from the unit tests\<close>

text \<open>
  The expectations of \<open>TEST(CrackColor, ...)\<close> and of \<open>TEST(Summarizer, MultiRange)\<close>,
  evaluated on the definitions above.
\<close>

lemma CrackColor_examples:
  "CrackColor 3 11 = ''11 Garbage''"
  "CrackColor 0 (128 + 29) = ''157 Garbage''"
  "CrackColor 3 (128 + 1) = ''129 Foreign [1 mod 29]''"
  "CrackColor 3 (64 + 20) = ''84 Foreign [20 mod 31]''"
  "CrackColor 3 (128 + 3) = ''131 Local [3 mod 29]''"
  "CrackColor 7 (64 + 7) = ''71 Local [7 mod 31]''"
  "CrackColor 3 128 = ''128 Root [0 mod 29]''"
  "CrackColor 7 64 = ''64 Root [0 mod 31]''"
  by (simp_all add: CrackColor_def dec_unsigned_def Let_def eval_color word_le_nat_alt)

lemma Summarizer_examples:
  "total_fails (Finish (Reports (Summarizer_ctor ''test'' \<lparr>round' = 0, kid = 0, last_painted_by = 0\<rparr> [])
      [(1, 13, ''junk''), (2, 13, ''junk''), (1, 13, ''junk''), (2, 13, ''junk''), (1, 13, ''junk''), (2, 13, ''junk'')])) = 6"
  "range_count (Finish (Reports (Summarizer_ctor ''test'' \<lparr>round' = 0, kid = 0, last_painted_by = 0\<rparr> [])
      [(1, 13, ''junk''), (2, 13, ''junk''), (1, 13, ''junk''), (2, 13, ''junk''), (1, 13, ''junk''), (2, 13, ''junk'')])) = 3"
  by (simp_all add: Summarizer_ctor_def Report_defs Finish_def kSpewLimit_def word_le_nat_alt)

end
